theory Spec2Isabelle
  imports Main "HOL-Library.Sublist"
begin

section \<open>Strings\<close>

text \<open>
  A JavaScript string is modelled as a HOL \<open>string\<close>; a \<open>char\<close> stands for a code unit
  below 256. \<open>s.startsWith(p)\<close> is \<open>prefix p s\<close> and \<open>s.endsWith(p)\<close> is \<open>suffix p s\<close>.
\<close>

text \<open>\<open>s.indexOf(pat)\<close>: the index of the first occurrence; \<open>-1\<close> is \<open>None\<close>.\<close>

fun indexOf :: "string \<Rightarrow> string \<Rightarrow> nat option" where
  "indexOf [] pat = (if pat = [] then Some 0 else None)"
| "indexOf (c # cs) pat =
     (if prefix pat (c # cs) then Some 0 else map_option Suc (indexOf cs pat))"

text \<open>\<open>s.includes(pat)\<close>.\<close>

definition includes_str :: "string \<Rightarrow> string \<Rightarrow> bool" where
  "includes_str s pat = (indexOf s pat \<noteq> None)"

text \<open>
  The white space \<open>String.prototype.trim\<close> strips, among the code units below 256:
  TAB, LF, VT, FF, CR, SP and NBSP.
\<close>

definition isWhiteSpace :: "char \<Rightarrow> bool" where
  "isWhiteSpace c =
     (c = CHR 0x09 \<or> c = CHR 0x0A \<or> c = CHR 0x0B \<or> c = CHR 0x0C \<or> c = CHR 0x0D \<or>
      c = CHR 0x20 \<or> c = CHR 0xA0)"

definition trim :: "string \<Rightarrow> string" where
  "trim s = rev (dropWhile isWhiteSpace (rev (dropWhile isWhiteSpace s)))"

text \<open>\<open>lines.join('\n')\<close>.\<close>

fun joinLines :: "string list \<Rightarrow> string" where
  "joinLines [] = []"
| "joinLines [l] = l"
| "joinLines (l # ls) = l @ [CHR 0x0A] @ joinLines ls"

text \<open>
  \<open>content.match(/# workflow: (.+)/)\<close>, giving the capture group of the leftmost match.
  The dot matches every code unit but a line terminator (LF and CR below 256) and
  \<open>+\<close> is greedy, so the group is the longest run of such units after the literal
  text, and an occurrence of the literal text followed by no such unit is no match.
\<close>

definition isLineTerminator :: "char \<Rightarrow> bool" where
  "isLineTerminator c = (c = CHR 0x0A \<or> c = CHR 0x0D)"

fun matchWorkflow :: "string \<Rightarrow> string option" where
  "matchWorkflow [] = None"
| "matchWorkflow (c # cs) =
     (let grp = takeWhile (\<lambda>x. \<not> isLineTerminator x) (drop 12 (c # cs))
      in if prefix ''# workflow: '' (c # cs) \<and> grp \<noteq> [] then Some grp
         else matchWorkflow cs)"

section \<open>Data model\<close>

record AgentDefinition =
  agent_id :: string
  agent_name :: string
  agent_description :: string
  systemPrompt :: string
  model :: "string option"
  tags :: "string list"

datatype AITarget = claude | cursor | windsurf | copilot

record Manifest =
  version :: string
  manifest_id :: string
  manifest_name :: string
  manifest_description :: string
  targets :: "AITarget list"
  agents :: "AgentDefinition list"
  author :: "string option"
  repository :: "string option"

text \<open>
  A path is the list of its segments; \<open>path.join(d, n)\<close> with a fixed segment \<open>n\<close> is
  \<open>d @ [n]\<close>.
\<close>

type_synonym path = "string list"

text \<open>
  \<open>path.join(dir, name)\<close> for a name that is not a fixed segment: the name is split at
  the slashes and the result is normalised, an empty segment and \<open>.\<close> changing nothing
  and \<open>..\<close> going up one directory (and staying at the root). Paths are absolute and
  normalised, and the separator is the slash.
\<close>

fun splitSegments :: "string \<Rightarrow> string list" where
  "splitSegments [] = [[]]"
| "splitSegments (c # cs) =
     (if c = CHR ''/'' then [] # splitSegments cs
      else (case splitSegments cs of
              [] \<Rightarrow> [[c]]
            | seg # segs \<Rightarrow> (c # seg) # segs))"

definition applySegment :: "path \<Rightarrow> string \<Rightarrow> path" where
  "applySegment p seg =
     (if seg = [] \<or> seg = ''.'' then p
      else if seg = ''..'' then butlast p
      else p @ [seg])"

definition joinPath :: "path \<Rightarrow> string \<Rightarrow> path" where
  "joinPath dir name = foldl applySegment dir (splitSegments name)"

record InjectOptions =
  inject_projectRoot :: path
  backup :: bool
  force :: bool
  merge :: bool

record EjectOptions =
  eject_projectRoot :: path
  workflowId :: "string option"
  clean :: bool

record InjectionResult =
  target :: AITarget
  configPath :: path
  agentPaths :: "path list"
  agentCount :: nat
  backupCreated :: bool
  backupPath :: "path option"

record InjectionStatus =
  isInjected :: bool
  status_workflowId :: "string option"
  hasBackup :: bool

datatype ErrorCode = INJECTION_FAILED

text \<open>
  What a call can throw: a \<open>BTWError\<close> with its code and message, or any other error
  (here always one raised by the file system) with its message.
\<close>

datatype error = BTWError ErrorCode string | IOError string

section \<open>The content generators of the Claude strategy\<close>

definition BTW_START_MARKER :: string where
  "BTW_START_MARKER = ''<!-- BTW_START -->''"

definition BTW_END_MARKER :: string where
  "BTW_END_MARKER = ''<!-- BTW_END -->''"

definition BTW_VERSION :: string where
  "BTW_VERSION = ''1.0.0''"

text \<open>\<open>str.replace(/"/g, '\\"')\<close>: a backslash goes before every double quote.\<close>

fun replaceQuotes :: "string \<Rightarrow> string" where
  "replaceQuotes [] = []"
| "replaceQuotes (c # cs) =
     (if c = CHR 0x22 then CHR 0x5C # CHR 0x22 # replaceQuotes cs else c # replaceQuotes cs)"

definition escapeYamlString :: "string \<Rightarrow> string" where
  "escapeYamlString str =
     (if includes_str str '':'' \<or> includes_str str ''#'' \<or> includes_str str [CHR 0x0A] \<or>
         prefix '' '' str \<or> suffix '' '' str
      then [CHR 0x22] @ replaceQuotes str @ [CHR 0x22]
      else str)"

text \<open>
  The table \<open>modelMap\<close> of \<open>generateAgentFile\<close> and the lookup
  \<open>modelMap[agent.model] || agent.model\<close>. The table is an object literal, so the lookup
  also finds the properties it inherits from \<open>Object.prototype\<close>; their values are truthy
  and the template prints them as Node does: the prototype object for \<open>__proto__\<close>, and
  the source text of a native function for the others.
\<close>

definition modelMap :: "(string \<times> string) list" where
  "modelMap =
     [(''claude-3-opus'', ''opus''),
      (''claude-3-sonnet'', ''sonnet''),
      (''claude-3-haiku'', ''haiku''),
      (''claude-opus-4'', ''opus''),
      (''claude-sonnet-4'', ''sonnet'')]"

definition inheritedFunctions :: "string list" where
  "inheritedFunctions =
     [''__defineGetter__'', ''__defineSetter__'', ''hasOwnProperty'', ''__lookupGetter__'',
      ''__lookupSetter__'', ''isPrototypeOf'', ''propertyIsEnumerable'', ''toString'',
      ''valueOf'', ''toLocaleString'']"

definition mappedModel :: "string \<Rightarrow> string" where
  "mappedModel m =
     (case map_of modelMap m of
        Some v \<Rightarrow> v
      | None \<Rightarrow>
          if m = ''__proto__'' then ''[object Object]''
          else if m = ''constructor'' then ''function Object() { [native code] }''
          else if m \<in> set inheritedFunctions then ''function '' @ m @ ''() { [native code] }''
          else m)"

text \<open>
  \<open>generateAgentFile(agent, workflowId)\<close>. The clock \<open>new Date().toISOString()\<close> is the
  parameter \<open>now\<close>. An absent or empty model is falsy and prints no line.
\<close>

definition generateAgentFile :: "string \<Rightarrow> AgentDefinition \<Rightarrow> string \<Rightarrow> string" where
  "generateAgentFile now agent wid =
     joinLines
       ([''---'',
         ''name: '' @ agent_id agent,
         ''description: '' @ escapeYamlString (agent_description agent)] @
        (case model agent of
           None \<Rightarrow> []
         | Some m \<Rightarrow> if m = [] then [] else [''model: '' @ mappedModel m]) @
        [''# BTW metadata'',
         ''# workflow: '' @ wid,
         ''# injected: '' @ now,
         ''---'',
         [],
         systemPrompt agent])"

text \<open>
  Modelled from the spec: \<open>createMarker\<close> of the base strategy class, which is not among
  the sources. The region opens with an ownership comment carrying the workflow id and a
  timestamp; \<open>eject\<close> looks for \<open>BTW:<id>:\<close> in it.
\<close>

definition createMarker :: "string \<Rightarrow> string \<Rightarrow> string" where
  "createMarker now wid = ''<!-- BTW:'' @ wid @ '':'' @ now @ '' -->''"

definition agentCatalogLine :: "AgentDefinition \<Rightarrow> string" where
  "agentCatalogLine agent =
     ''- **'' @ agent_name agent @ ''** (`'' @ agent_id agent @ ''`): '' @ agent_description agent"

text \<open>\<open>generateInstructions(manifest)\<close>, the region written into \<open>CLAUDE.md\<close>.\<close>

definition generateInstructions :: "string \<Rightarrow> Manifest \<Rightarrow> string" where
  "generateInstructions now manifest =
     joinLines
       ([BTW_START_MARKER,
         createMarker now (manifest_id manifest),
         [],
         ''# '' @ manifest_name manifest,
         []] @
        (if manifest_description manifest \<noteq> [] then [manifest_description manifest, []] else []) @
        [''## Workflow Information'',
         [],
         ''- **Workflow ID:** '' @ manifest_id manifest,
         ''- **Version:** '' @ version manifest] @
        (case author manifest of
           None \<Rightarrow> []
         | Some a \<Rightarrow> if a = [] then [] else [''- **Author:** '' @ a]) @
        (case repository manifest of
           None \<Rightarrow> []
         | Some r \<Rightarrow> if r = [] then [] else [''- **Repository:** '' @ r]) @
        [[]] @
        (if agents manifest \<noteq> []
         then [''## Available Agents'',
               [],
               ''This workflow provides the following specialized agents:'',
               []] @
              map agentCatalogLine (agents manifest) @
              [[]]
         else []) @
        [''---'',
         [],
         ''*Injected by BTW v'' @ BTW_VERSION @ '' at '' @ now @ ''*'',
         [],
         BTW_END_MARKER])"

text \<open>\<open>removeBtwContent(content)\<close>.\<close>

definition removeBtwContent :: "string \<Rightarrow> string" where
  "removeBtwContent content =
     (case (indexOf content BTW_START_MARKER, indexOf content BTW_END_MARKER) of
        (Some startIndex, Some endIndex) \<Rightarrow>
          if endIndex > startIndex
          then trim (take startIndex content @
                     drop (endIndex + length BTW_END_MARKER) content)
          else content
      | _ \<Rightarrow> content)"

section \<open>The file system\<close>

text \<open>
  Modelled from the spec: the file system capability (\<open>infrastructure/fs/FileSystem\<close>),
  which is not among the sources. It exposes an existence check, read, write, directory
  creation, removal (optionally recursive), directory listing and backup. A state is the
  list of the nodes that exist, in the order a directory listing reports them; a node is
  a readable file with its content, a file whose read fails, or a directory.
\<close>

datatype node = File string | Unreadable | Dir

type_synonym fs = "(path \<times> node) list"

record FileInfo =
  fi_name :: string
  fi_path :: path
  isDirectory :: bool

definition fs_exists :: "fs \<Rightarrow> path \<Rightarrow> bool" where
  "fs_exists fs p = (map_of fs p \<noteq> None)"

definition fs_readFile :: "fs \<Rightarrow> path \<Rightarrow> error + string" where
  "fs_readFile fs p =
     (case map_of fs p of
        Some (File content) \<Rightarrow> Inr content
      | Some Unreadable \<Rightarrow> Inl (IOError ''EACCES'')
      | Some Dir \<Rightarrow> Inl (IOError ''EISDIR'')
      | None \<Rightarrow> Inl (IOError ''ENOENT''))"

definition fs_readdir :: "fs \<Rightarrow> path \<Rightarrow> error + FileInfo list" where
  "fs_readdir fs d =
     (case map_of fs d of
        Some Dir \<Rightarrow>
          Inr (map (\<lambda>(p, n). \<lparr>fi_name = last p, fi_path = p, isDirectory = (n = Dir)\<rparr>)
                 (filter (\<lambda>(p, n). p \<noteq> [] \<and> butlast p = d) fs))
      | Some _ \<Rightarrow> Inl (IOError ''ENOTDIR'')
      | None \<Rightarrow> Inl (IOError ''ENOENT''))"

text \<open>
  Removal: recursive removal takes the node and everything below it; plain removal takes
  the node alone and fails on a directory.
\<close>

definition fs_remove :: "fs \<Rightarrow> path \<Rightarrow> bool \<Rightarrow> error + fs" where
  "fs_remove fs p recursive =
     (if recursive then Inr (filter (\<lambda>(q, n). \<not> prefix p q) fs)
      else if map_of fs p = Some Dir then Inl (IOError ''EISDIR'')
      else Inr (filter (\<lambda>(q, n). q \<noteq> p) fs))"

text \<open>
  Directory creation ensures the directory and its ancestors exist; it changes nothing
  when the directory is there and fails when another node is in the way.
\<close>

function fs_mkdir :: "fs \<Rightarrow> path \<Rightarrow> error + fs" where
  "fs_mkdir fs p =
     (case map_of fs p of
        Some Dir \<Rightarrow> Inr fs
      | Some _ \<Rightarrow> Inl (IOError ''EEXIST'')
      | None \<Rightarrow>
          if p = [] then Inr (fs @ [([], Dir)])
          else (case fs_mkdir fs (butlast p) of
                  Inl e \<Rightarrow> Inl e
                | Inr fs' \<Rightarrow> Inr (fs' @ [(p, Dir)])))"
  by pat_completeness auto
termination
  by (relation "measure (\<lambda>(fs, p). length p)") auto

declare fs_mkdir.simps [simp del]

fun putNode :: "path \<Rightarrow> node \<Rightarrow> fs \<Rightarrow> fs" where
  "putNode p n [] = [(p, n)]"
| "putNode p n ((q, m) # rest) =
     (if q = p then (p, n) # rest else (q, m) # putNode p n rest)"

definition fs_writeFile :: "fs \<Rightarrow> path \<Rightarrow> string \<Rightarrow> bool \<Rightarrow> error + fs" where
  "fs_writeFile fs p content createDirs =
     (if map_of fs p = Some Dir then Inl (IOError ''EISDIR'')
      else if createDirs
      then (case fs_mkdir fs (butlast p) of
              Inl e \<Rightarrow> Inl e
            | Inr fs' \<Rightarrow> Inr (putNode p (File content) fs'))
      else Inr (putNode p (File content) fs))"

text \<open>The backup of a file is its sibling \<open><path>.btw-backup\<close>.\<close>

definition btwBackupPath :: "path \<Rightarrow> path" where
  "btwBackupPath p =
     (if p = [] then [''.btw-backup''] else butlast p @ [last p @ ''.btw-backup''])"

definition fs_backup :: "fs \<Rightarrow> path \<Rightarrow> error + fs" where
  "fs_backup fs p =
     (case fs_readFile fs p of
        Inl e \<Rightarrow> Inl e
      | Inr content \<Rightarrow> fs_writeFile fs (btwBackupPath p) content False)"

text \<open>
  A call leaves the state it reached, also when it throws: an outcome is the error or the
  result, and the state. \<open>andThen\<close> is the sequencing of two awaited calls; \<open>attempt\<close>
  runs one file system call that changes the state.
\<close>

type_synonym 'a outcome = "(error + 'a) \<times> fs"

definition andThen :: "'a outcome \<Rightarrow> ('a \<Rightarrow> fs \<Rightarrow> 'b outcome) \<Rightarrow> 'b outcome" where
  "andThen r k = (case r of (Inl e, fs) \<Rightarrow> (Inl e, fs) | (Inr x, fs) \<Rightarrow> k x fs)"

definition attempt :: "fs \<Rightarrow> error + fs \<Rightarrow> unit outcome" where
  "attempt fs r = (case r of Inl e \<Rightarrow> (Inl e, fs) | Inr fs' \<Rightarrow> (Inr (), fs'))"

section \<open>The Claude strategy\<close>

text \<open>
  Modelled from the spec: the paths \<open>pathResolver.resolveAiToolPaths\<close> gives for the
  target, as the strategy's header comment and its unit tests have them:
  \<open><root>/CLAUDE.md\<close> and \<open><root>/.claude/agents\<close>. The agents path is always defined
  for this target, so the guards \<open>if (agentsPath)\<close> of the source are always taken.
\<close>

definition instructionsPathOf :: "path \<Rightarrow> path" where
  "instructionsPathOf projectRoot = projectRoot @ [''CLAUDE.md'']"

definition agentsPathOf :: "path \<Rightarrow> path" where
  "agentsPathOf projectRoot = projectRoot @ [''.claude'', ''agents'']"

definition claudeDirOf :: "path \<Rightarrow> path" where
  "claudeDirOf projectRoot = projectRoot @ [''.claude'']"

text \<open>The files a scan skips: \<open>!name.endsWith('.md') || name.endsWith('.btw-backup')\<close>.\<close>

definition skipped :: "FileInfo \<Rightarrow> bool" where
  "skipped file = (\<not> suffix ''.md'' (fi_name file) \<or> suffix ''.btw-backup'' (fi_name file))"

text \<open>\<open>findBtwAgents\<close>: the loop over the listing, then the function.\<close>

fun findBtwAgents_loop :: "fs \<Rightarrow> FileInfo list \<Rightarrow> path list" where
  "findBtwAgents_loop fs [] = []"
| "findBtwAgents_loop fs (file # files) =
     (if skipped file then findBtwAgents_loop fs files
      else (case fs_readFile fs (fi_path file) of
              Inl e \<Rightarrow> findBtwAgents_loop fs files
            | Inr content \<Rightarrow>
                if includes_str content ''# BTW metadata'' \<or> includes_str content ''# workflow:''
                then fi_path file # findBtwAgents_loop fs files
                else findBtwAgents_loop fs files))"

definition findBtwAgents :: "fs \<Rightarrow> path \<Rightarrow> path list" where
  "findBtwAgents fs agentsPath =
     (case fs_readdir fs agentsPath of
        Inl e \<Rightarrow> []
      | Inr files \<Rightarrow> findBtwAgents_loop fs files)"

text \<open>\<open>findBtwAgentsForWorkflow\<close>.\<close>

fun findBtwAgentsForWorkflow_loop :: "fs \<Rightarrow> string \<Rightarrow> FileInfo list \<Rightarrow> path list" where
  "findBtwAgentsForWorkflow_loop fs wid [] = []"
| "findBtwAgentsForWorkflow_loop fs wid (file # files) =
     (if skipped file then findBtwAgentsForWorkflow_loop fs wid files
      else (case fs_readFile fs (fi_path file) of
              Inl e \<Rightarrow> findBtwAgentsForWorkflow_loop fs wid files
            | Inr content \<Rightarrow>
                (case matchWorkflow content of
                   None \<Rightarrow> findBtwAgentsForWorkflow_loop fs wid files
                 | Some m \<Rightarrow>
                     if trim m = wid
                     then fi_path file # findBtwAgentsForWorkflow_loop fs wid files
                     else findBtwAgentsForWorkflow_loop fs wid files)))"

definition findBtwAgentsForWorkflow :: "fs \<Rightarrow> path \<Rightarrow> string \<Rightarrow> path list" where
  "findBtwAgentsForWorkflow fs agentsPath wid =
     (case fs_readdir fs agentsPath of
        Inl e \<Rightarrow> []
      | Inr files \<Rightarrow> findBtwAgentsForWorkflow_loop fs wid files)"

text \<open>
  \<open>getAllWorkflowIdsFromAgents\<close>. The \<open>Set\<close> keeps its elements in insertion order, and
  \<open>Array.from\<close> reads them in that order.
\<close>

definition setAdd :: "string \<Rightarrow> string list \<Rightarrow> string list" where
  "setAdd x xs = (if x \<in> set xs then xs else xs @ [x])"

fun getAllWorkflowIds_loop :: "fs \<Rightarrow> FileInfo list \<Rightarrow> string list \<Rightarrow> string list" where
  "getAllWorkflowIds_loop fs [] workflowIds = workflowIds"
| "getAllWorkflowIds_loop fs (file # files) workflowIds =
     (if skipped file then getAllWorkflowIds_loop fs files workflowIds
      else (case fs_readFile fs (fi_path file) of
              Inl e \<Rightarrow> getAllWorkflowIds_loop fs files workflowIds
            | Inr content \<Rightarrow>
                (case matchWorkflow content of
                   None \<Rightarrow> getAllWorkflowIds_loop fs files workflowIds
                 | Some m \<Rightarrow> getAllWorkflowIds_loop fs files (setAdd (trim m) workflowIds))))"

definition getAllWorkflowIdsFromAgents :: "fs \<Rightarrow> path \<Rightarrow> string list" where
  "getAllWorkflowIdsFromAgents fs agentsPath =
     (case fs_readdir fs agentsPath of
        Inl e \<Rightarrow> []
      | Inr files \<Rightarrow> getAllWorkflowIds_loop fs files [])"

definition getWorkflowIdFromAgents :: "fs \<Rightarrow> path \<Rightarrow> string option" where
  "getWorkflowIdFromAgents fs agentsPath =
     (case getAllWorkflowIdsFromAgents fs agentsPath of [] \<Rightarrow> None | i # ids \<Rightarrow> Some i)"

definition isWorkflowInjected :: "fs \<Rightarrow> path \<Rightarrow> string \<Rightarrow> bool" where
  "isWorkflowInjected fs projectRoot wid =
     (wid \<in> set (getAllWorkflowIdsFromAgents fs (agentsPathOf projectRoot)))"

text \<open>
  \<open>getStatus\<close>. Every call inside that can fail is caught by the scans themselves and
  \<open>exists\<close> answers without failing, so the handler of the enclosing \<open>try\<close>, which answers
  \<open>{isInjected: false, hasBackup: false}\<close>, is never reached. \<open>workflowId || undefined\<close>
  turns an empty id into an absent one.
\<close>

definition notInjected :: InjectionStatus where
  "notInjected = \<lparr>isInjected = False, status_workflowId = None, hasBackup = False\<rparr>"

definition getStatus :: "fs \<Rightarrow> path \<Rightarrow> InjectionStatus" where
  "getStatus fs projectRoot =
     (let agentsPath = agentsPathOf projectRoot;
          btwAgents = findBtwAgents fs agentsPath
      in if btwAgents = [] then notInjected
         else \<lparr>isInjected = True,
               status_workflowId =
                 (case getWorkflowIdFromAgents fs agentsPath of
                    None \<Rightarrow> None
                  | Some w \<Rightarrow> if w = [] then None else Some w),
               hasBackup = list_ex (\<lambda>agentFile. fs_exists fs (btwBackupPath agentFile)) btwAgents\<rparr>)"

text \<open>
  The region the test of \<open>removeBtwContent\<close> accepts: the indices of the first start
  sentinel and of the first end sentinel of the whole content, when both are found and
  the second is greater.
\<close>

definition locate :: "string \<Rightarrow> (nat \<times> nat) option" where
  "locate content =
     (case (indexOf content BTW_START_MARKER, indexOf content BTW_END_MARKER) of
        (Some startIndex, Some endIndex) \<Rightarrow>
          if endIndex > startIndex then Some (startIndex, endIndex) else None
      | _ \<Rightarrow> None)"

text \<open>An end sentinel stands before the first start sentinel.\<close>

definition endBeforeStart :: "string \<Rightarrow> bool" where
  "endBeforeStart content =
     (case (indexOf content BTW_START_MARKER, indexOf content BTW_END_MARKER) of
        (Some startIndex, Some endIndex) \<Rightarrow> endIndex < startIndex
      | _ \<Rightarrow> False)"

text \<open>
  \<open>updateClaudeMd\<close>. \<open>mergedContent\<close> is the expression both replacing branches compute
  from the existing content: the cleaned content, trimmed, then a separator and the new
  region, or the new region alone when nothing else is left.
\<close>

definition separator :: string where
  "separator = [CHR 0x0A, CHR 0x0A] @ ''---'' @ [CHR 0x0A, CHR 0x0A]"

definition mergedContent :: "string \<Rightarrow> string \<Rightarrow> string" where
  "mergedContent existingContent btwContent =
     (let cleanedContent = removeBtwContent existingContent
      in if trim cleanedContent \<noteq> [] then trim cleanedContent @ separator @ btwContent
         else btwContent)"

definition updateClaudeMd :: "string \<Rightarrow> path \<Rightarrow> Manifest \<Rightarrow> InjectOptions \<Rightarrow> fs \<Rightarrow> unit outcome" where
  "updateClaudeMd now claudeMdPath manifest options fs =
     (let btwContent = generateInstructions now manifest;
          exists = fs_exists fs claudeMdPath
      in if merge options \<and> exists
         then (case fs_readFile fs claudeMdPath of
                 Inl e \<Rightarrow> (Inl e, fs)
               | Inr existingContent \<Rightarrow>
                   attempt fs
                     (fs_writeFile fs claudeMdPath (mergedContent existingContent btwContent) False))
         else if exists \<and> \<not> force options
         then (case fs_readFile fs claudeMdPath of
                 Inl e \<Rightarrow> (Inl e, fs)
               | Inr existingContent \<Rightarrow>
                   if includes_str existingContent BTW_START_MARKER
                   then attempt fs
                          (fs_writeFile fs claudeMdPath
                             (mergedContent existingContent btwContent) False)
                   else attempt fs
                          (fs_writeFile fs claudeMdPath
                             (trim existingContent @ separator @ btwContent) False))
         else attempt fs (fs_writeFile fs claudeMdPath btwContent False))"

text \<open>The loops of \<open>inject\<close>: best-effort backups, removal, and the agent files.\<close>

fun backupAgents :: "path list \<Rightarrow> bool \<Rightarrow> fs \<Rightarrow> bool \<times> fs" where
  "backupAgents [] created fs = (created, fs)"
| "backupAgents (agentFile # rest) created fs =
     (case fs_backup fs agentFile of
        Inl e \<Rightarrow> backupAgents rest created fs
      | Inr fs' \<Rightarrow> backupAgents rest True fs')"

fun removeAll :: "path list \<Rightarrow> fs \<Rightarrow> unit outcome" where
  "removeAll [] fs = (Inr (), fs)"
| "removeAll (agentFile # rest) fs =
     (case fs_remove fs agentFile False of
        Inl e \<Rightarrow> (Inl e, fs)
      | Inr fs' \<Rightarrow> removeAll rest fs')"

fun writeAgents :: "string \<Rightarrow> path \<Rightarrow> string \<Rightarrow> AgentDefinition list \<Rightarrow> fs \<Rightarrow> (path list) outcome" where
  "writeAgents now agentsPath wid [] fs = (Inr [], fs)"
| "writeAgents now agentsPath wid (agent # rest) fs =
     (let agentFilePath = joinPath agentsPath (agent_id agent @ ''.md'')
      in case fs_writeFile fs agentFilePath (generateAgentFile now agent wid) True of
           Inl e \<Rightarrow> (Inl e, fs)
         | Inr fs' \<Rightarrow>
             (case writeAgents now agentsPath wid rest fs' of
                (Inl e, fs'') \<Rightarrow> (Inl e, fs'')
              | (Inr paths, fs'') \<Rightarrow> (Inr (agentFilePath # paths), fs'')))"

definition alreadyInjected :: "string \<Rightarrow> error" where
  "alreadyInjected wid =
     BTWError INJECTION_FAILED
       (''Workflow '' @ [CHR 0x27] @ wid @ [CHR 0x27] @
        '' is already injected. Use --force to re-inject.'')"

text \<open>\<open>inject\<close>: the body of the \<open>try\<close>, then the handler that wraps foreign errors.\<close>

definition inject_body :: "string \<Rightarrow> Manifest \<Rightarrow> InjectOptions \<Rightarrow> fs \<Rightarrow> InjectionResult outcome" where
  "inject_body now manifest options fs =
     (let projectRoot = inject_projectRoot options;
          instructionsPath = instructionsPathOf projectRoot;
          agentsPath = agentsPathOf projectRoot;
          claudeDir = claudeDirOf projectRoot
      in andThen (attempt fs (fs_mkdir fs claudeDir)) (\<lambda>u fs1.
         andThen (attempt fs1 (fs_mkdir fs1 agentsPath)) (\<lambda>u fs2.
         if \<not> force options \<and> isWorkflowInjected fs2 projectRoot (manifest_id manifest)
         then (Inl (alreadyInjected (manifest_id manifest)), fs2)
         else
           (case (if backup options
                  then backupAgents
                         (findBtwAgentsForWorkflow fs2 agentsPath (manifest_id manifest)) False fs2
                  else (False, fs2)) of
              (created, fs3) \<Rightarrow>
                andThen (if force options
                         then removeAll
                                (findBtwAgentsForWorkflow fs3 agentsPath (manifest_id manifest)) fs3
                         else (Inr (), fs3)) (\<lambda>u fs4.
                andThen (writeAgents now agentsPath (manifest_id manifest) (agents manifest) fs4)
                  (\<lambda>agentFilePaths fs5.
                andThen (updateClaudeMd now instructionsPath manifest options fs5) (\<lambda>u fs6.
                  (Inr \<lparr>target = claude,
                        configPath = instructionsPath,
                        agentPaths = agentFilePaths,
                        agentCount = length (agents manifest),
                        backupCreated = created,
                        backupPath = None\<rparr>, fs6))))))))"

definition inject :: "string \<Rightarrow> Manifest \<Rightarrow> InjectOptions \<Rightarrow> fs \<Rightarrow> InjectionResult outcome" where
  "inject now manifest options fs =
     (case inject_body now manifest options fs of
        (Inl (IOError msg), fs') \<Rightarrow>
          (Inl (BTWError INJECTION_FAILED
                  (''Failed to inject workflow into Claude configuration: '' @ msg)), fs')
      | r \<Rightarrow> r)"

text \<open>
  \<open>eject\<close>. \<open>options.workflowId\<close> is tested for truthiness, so an empty id counts as no
  id: \<open>givenId\<close> is the id when there is a non-empty one.
\<close>

definition givenId :: "EjectOptions \<Rightarrow> string option" where
  "givenId options =
     (case workflowId options of None \<Rightarrow> None | Some w \<Rightarrow> if w = [] then None else Some w)"

fun removeAgents :: "path list \<Rightarrow> fs \<Rightarrow> unit outcome" where
  "removeAgents [] fs = (Inr (), fs)"
| "removeAgents (agentFile # rest) fs =
     (case fs_remove fs agentFile False of
        Inl e \<Rightarrow> (Inl e, fs)
      | Inr fs1 \<Rightarrow>
          if fs_exists fs1 (btwBackupPath agentFile)
          then (case fs_remove fs1 (btwBackupPath agentFile) False of
                  Inl e \<Rightarrow> (Inl e, fs1)
                | Inr fs2 \<Rightarrow> removeAgents rest fs2)
          else removeAgents rest fs1)"

text \<open>Step 1: the agent files, then the agents directory when the listing is empty.\<close>

definition ejectAgents :: "EjectOptions \<Rightarrow> fs \<Rightarrow> unit outcome" where
  "ejectAgents options fs =
     (let agentsPath = agentsPathOf (eject_projectRoot options);
          btwAgents = (case givenId options of
                         Some w \<Rightarrow> findBtwAgentsForWorkflow fs agentsPath w
                       | None \<Rightarrow> findBtwAgents fs agentsPath)
      in andThen (removeAgents btwAgents fs) (\<lambda>u fs1.
           case fs_readdir fs1 agentsPath of
             Inl e \<Rightarrow> (Inr (), fs1)
           | Inr remainingFiles \<Rightarrow>
               if remainingFiles = []
               then (case fs_remove fs1 agentsPath True of
                       Inl e \<Rightarrow> (Inr (), fs1)
                     | Inr fs2 \<Rightarrow> (Inr (), fs2))
               else (Inr (), fs1)))"

text \<open>Step 2: the shared document.\<close>

definition ejectClaudeMd :: "EjectOptions \<Rightarrow> fs \<Rightarrow> unit outcome" where
  "ejectClaudeMd options fs =
     (let instructionsPath = instructionsPathOf (eject_projectRoot options)
      in if fs_exists fs instructionsPath
         then (case fs_readFile fs instructionsPath of
                 Inl e \<Rightarrow> (Inl e, fs)
               | Inr content \<Rightarrow>
                   let shouldCleanClaudeMd =
                         (case givenId options of
                            None \<Rightarrow> True
                          | Some w \<Rightarrow> includes_str content (''BTW:'' @ w @ '':''))
                   in if shouldCleanClaudeMd
                      then (let cleanedContent = removeBtwContent content
                            in if trim cleanedContent \<noteq> []
                               then attempt fs
                                      (fs_writeFile fs instructionsPath
                                         (trim cleanedContent @ [CHR 0x0A]) False)
                               else attempt fs (fs_remove fs instructionsPath False))
                      else (Inr (), fs))
         else (Inr (), fs))"

text \<open>Step 3: with \<open>clean\<close>, the \<open>.claude\<close> directory when its listing is empty.\<close>

definition ejectClean :: "EjectOptions \<Rightarrow> fs \<Rightarrow> unit outcome" where
  "ejectClean options fs =
     (let claudeDir = claudeDirOf (eject_projectRoot options)
      in if clean options
         then (case fs_readdir fs claudeDir of
                 Inl e \<Rightarrow> (Inr (), fs)
               | Inr claudeContents \<Rightarrow>
                   if claudeContents = []
                   then (case fs_remove fs claudeDir True of
                           Inl e \<Rightarrow> (Inr (), fs)
                         | Inr fs' \<Rightarrow> (Inr (), fs'))
                   else (Inr (), fs))
         else (Inr (), fs))"

definition eject_body :: "EjectOptions \<Rightarrow> fs \<Rightarrow> unit outcome" where
  "eject_body options fs =
     andThen (ejectAgents options fs) (\<lambda>u fs1.
     andThen (ejectClaudeMd options fs1) (\<lambda>u fs2.
     ejectClean options fs2))"

definition eject :: "EjectOptions \<Rightarrow> fs \<Rightarrow> unit outcome" where
  "eject options fs =
     (case eject_body options fs of
        (Inl (IOError msg), fs') \<Rightarrow>
          (Inl (BTWError INJECTION_FAILED
                  (''Failed to eject workflow from Claude configuration: '' @ msg)), fs')
      | r \<Rightarrow> r)"

section \<open>The injection engine\<close>

text \<open>
  Modelled from the spec: the injection engine (\<open>core/injection/InjectionEngine\<close>), which
  is not among the sources. \<open>inject\<close>, \<open>eject\<close> and \<open>getStatus\<close> delegate to the strategy
  registered for the target and keep no state of their own; the callers read the answer
  as a result object with \<open>success\<close>, \<open>data\<close> and \<open>error\<close>. Only the Claude strategy is
  among the sources, so the other targets answer as unsupported.
\<close>

record 'a Result =
  success :: bool
  data :: "'a option"
  error_text :: "string option"

definition errorMessage :: "error \<Rightarrow> string" where
  "errorMessage e = (case e of BTWError c msg \<Rightarrow> msg | IOError msg \<Rightarrow> msg)"

definition toResult :: "'a outcome \<Rightarrow> 'a Result \<times> fs" where
  "toResult r =
     (case r of
        (Inl e, fs) \<Rightarrow> (\<lparr>success = False, data = None, error_text = Some (errorMessage e)\<rparr>, fs)
      | (Inr x, fs) \<Rightarrow> (\<lparr>success = True, data = Some x, error_text = None\<rparr>, fs))"

definition unsupported :: "'a Result" where
  "unsupported = \<lparr>success = False, data = None, error_text = Some ''Target is not supported''\<rparr>"

definition isTargetSupported :: "AITarget \<Rightarrow> bool" where
  "isTargetSupported t = (t = claude)"

definition engine_inject :: "string \<Rightarrow> Manifest \<Rightarrow> AITarget \<Rightarrow> InjectOptions \<Rightarrow> fs \<Rightarrow> InjectionResult Result \<times> fs" where
  "engine_inject now manifest t options fs =
     (if isTargetSupported t then toResult (inject now manifest options fs) else (unsupported, fs))"

definition engine_eject :: "AITarget \<Rightarrow> EjectOptions \<Rightarrow> fs \<Rightarrow> unit Result \<times> fs" where
  "engine_eject t options fs =
     (if isTargetSupported t then toResult (eject options fs) else (unsupported, fs))"

definition engine_getStatus :: "AITarget \<Rightarrow> path \<Rightarrow> fs \<Rightarrow> InjectionStatus" where
  "engine_getStatus t projectRoot fs =
     (if isTargetSupported t then getStatus fs projectRoot else notInjected)"

section \<open>The interactive mode of the inject command\<close>

record InjectCommandOptions =
  interactive :: "bool option"
  cmd_target :: string
  project :: "path option"
  cmd_backup :: bool
  cmd_force :: "bool option"
  cmd_merge :: "bool option"

record ListItem =
  item_id :: string
  label :: string
  item_description :: string
  isActive :: bool

text \<open>
  What \<open>workflowManager.get\<close> answers; the manager is a parameter of the callback.
  \<open>wr_manifest\<close> is \<open>data?.manifest\<close>.
\<close>

record WorkflowResult =
  wr_success :: bool
  wr_manifest :: "Manifest option"
  wr_error :: "string option"

text \<open>\<open>x || dflt\<close> on an optional string: an absent or empty string gives the default.\<close>

definition orElse :: "string option \<Rightarrow> string \<Rightarrow> string" where
  "orElse x dflt = (case x of None \<Rightarrow> dflt | Some s \<Rightarrow> if s = [] then dflt else s)"

text \<open>
  The item \<open>getAllWorkflowsWithStatus\<close> pushes for an installed workflow that supports
  the target: it is active when the status names this workflow.
\<close>

definition workflowItem :: "InjectionStatus \<Rightarrow> Manifest \<Rightarrow> ListItem" where
  "workflowItem status manifest =
     \<lparr>item_id = manifest_id manifest,
      label = manifest_name manifest,
      item_description = manifest_description manifest,
      isActive = (isInjected status \<and> status_workflowId status = Some (manifest_id manifest))\<rparr>"

text \<open>
  The items for the installed manifests (the enumeration of the workflows directory and
  the manifest parser are outside the sources, so the parsed manifests are given).
\<close>

definition getAllWorkflowsWithStatus :: "Manifest list \<Rightarrow> path \<Rightarrow> AITarget \<Rightarrow> fs \<Rightarrow> ListItem list" where
  "getAllWorkflowsWithStatus installed projectRoot t fs =
     map (workflowItem (engine_getStatus t projectRoot fs))
       (filter (\<lambda>manifest. t \<in> set (targets manifest)) installed)"

text \<open>
  The toggle callback \<open>executeInteractive\<close> hands to the selector. A thrown \<open>Error\<close> is
  its message.
\<close>

definition onToggle :: "string \<Rightarrow> (string \<Rightarrow> WorkflowResult) \<Rightarrow> InjectCommandOptions \<Rightarrow> path \<Rightarrow> AITarget \<Rightarrow> string \<Rightarrow> bool \<Rightarrow> fs \<Rightarrow> (string + unit) \<times> fs" where
  "onToggle now workflowManager_get options projectRoot t wid currentlyActive fs =
     (if currentlyActive
      then (case engine_eject t
                   \<lparr>eject_projectRoot = projectRoot, workflowId = None, clean = False\<rparr> fs of
              (result, fs') \<Rightarrow>
                if \<not> success result
                then (Inl (orElse (error_text result) ''Failed to remove workflow''), fs')
                else (Inr (), fs'))
      else (let workflowResult = workflowManager_get wid
            in case (wr_success workflowResult, wr_manifest workflowResult) of
                 (True, Some manifest) \<Rightarrow>
                   (case engine_inject now manifest t
                           \<lparr>inject_projectRoot = projectRoot,
                            backup = cmd_backup options,
                            force = True,
                            merge = (case cmd_merge options of None \<Rightarrow> False | Some m \<Rightarrow> m)\<rparr> fs of
                      (result, fs') \<Rightarrow>
                        if \<not> success result
                        then (Inl (orElse (error_text result) ''Failed to inject workflow''), fs')
                        else (Inr (), fs'))
               | _ \<Rightarrow>
                   (Inl (orElse (wr_error workflowResult)
                           (''Workflow '' @ [CHR 0x27] @ wid @ [CHR 0x27] @ '' not found'')), fs)))"

text \<open>
  One round of \<open>runInteractiveSelector\<close> after the user picked the item \<open>sel\<close>: the item
  is looked up in the list shown, the callback gets its id and its active flag, and an
  error of the callback is shown and dropped.
\<close>

definition toggleRound :: "(string \<Rightarrow> bool \<Rightarrow> fs \<Rightarrow> (string + unit) \<times> fs) \<Rightarrow> ListItem list \<Rightarrow> string \<Rightarrow> fs \<Rightarrow> fs" where
  "toggleRound callback items sel fs =
     (case find (\<lambda>i. item_id i = sel) items of
        None \<Rightarrow> fs
      | Some item \<Rightarrow> snd (callback sel (isActive item) fs))"

section \<open>The specification's wording of the marker region\<close>

text \<open>
  \<open>indexOf\<close> from a position: the first occurrence at or after \<open>i\<close>.
\<close>

definition indexOfFrom :: "string \<Rightarrow> string \<Rightarrow> nat \<Rightarrow> nat option" where
  "indexOfFrom s pat i = (if i \<le> length s then map_option (\<lambda>k. k + i) (indexOf (drop i s) pat) else None)"

text \<open>
  The specification's \<open>locate\<close>: the first start sentinel and the first end sentinel found
  after it.
\<close>

definition spec_locate :: "string \<Rightarrow> (nat \<times> nat) option" where
  "spec_locate document =
     (case indexOf document BTW_START_MARKER of
        None \<Rightarrow> None
      | Some s \<Rightarrow>
          (case indexOfFrom document BTW_END_MARKER s of
             None \<Rightarrow> None
           | Some e \<Rightarrow> if e > s then Some (s, e) else None))"

text \<open>
  The specification's replacement of a located region: the new region takes the place of
  the span and the bytes around it stay as they are.
\<close>

definition spec_replace :: "string \<Rightarrow> string \<Rightarrow> nat \<Rightarrow> nat \<Rightarrow> string" where
  "spec_replace document newRegion s e =
     take s document @ newRegion @ drop (e + length BTW_END_MARKER) document"

section \<open>Well-formed states\<close>

text \<open>
  In a file system every node but the root lies in a directory: the parent of each
  node of a state is a directory of that state.
\<close>

definition parentsExist :: "fs \<Rightarrow> bool" where
  "parentsExist fs = (\<forall>(p, n) \<in> set fs. p \<noteq> [] \<longrightarrow> map_of fs (butlast p) = Some Dir)"

section \<open>What a scan reads from a listed file\<close>

text \<open>
  The workflow marker the scans take from a listed file (the trimmed capture group), and
  whether \<open>findBtwAgents\<close> counts the file as owned. A file that is skipped by name or
  whose read fails has no marker and is not owned.
\<close>

definition markerOf :: "fs \<Rightarrow> FileInfo \<Rightarrow> string option" where
  "markerOf fs file =
     (if skipped file then None
      else (case fs_readFile fs (fi_path file) of
              Inl e \<Rightarrow> None
            | Inr content \<Rightarrow> map_option trim (matchWorkflow content)))"

definition btwMarked :: "fs \<Rightarrow> FileInfo \<Rightarrow> bool" where
  "btwMarked fs file =
     (if skipped file then False
      else (case fs_readFile fs (fi_path file) of
              Inl e \<Rightarrow> False
            | Inr content \<Rightarrow>
                includes_str content ''# BTW metadata'' \<or> includes_str content ''# workflow:''))"

text \<open>
  The listed files an \<open>eject\<close> is to remove: with an id, the files whose marker is that
  id; without one, the files \<open>findBtwAgents\<close> counts as owned.
\<close>

definition ownedBy :: "EjectOptions \<Rightarrow> fs \<Rightarrow> FileInfo \<Rightarrow> bool" where
  "ownedBy options fs file =
     (case givenId options of
        Some w \<Rightarrow> markerOf fs file = Some w
      | None \<Rightarrow> btwMarked fs file)"

section \<open>The lines of the generated region\<close>


section \<open>Manifests that keep clear of the end sentinel\<close>





section \<open>Sample data\<close>

text \<open>
  The project and the two workflows of the specification's scenarios: \<open>demo\<close> with the
  agent \<open>writer\<close>, and \<open>other\<close> with the agent \<open>helper\<close>.
\<close>

definition sampleRoot :: path where
  "sampleRoot = [''project'']"

definition writerAgent :: AgentDefinition where
  "writerAgent =
     \<lparr>agent_id = ''writer'', agent_name = ''Writer'', agent_description = ''d'',
      systemPrompt = ''p'', model = None, tags = []\<rparr>"

definition helperAgent :: AgentDefinition where
  "helperAgent =
     \<lparr>agent_id = ''helper'', agent_name = ''Helper'', agent_description = ''h'',
      systemPrompt = ''q'', model = None, tags = []\<rparr>"

definition demoManifest :: Manifest where
  "demoManifest =
     \<lparr>version = ''1.0'', manifest_id = ''demo'', manifest_name = ''Demo'',
      manifest_description = [], targets = [claude], agents = [writerAgent],
      author = None, repository = None\<rparr>"

definition otherManifest :: Manifest where
  "otherManifest =
     \<lparr>version = ''1.0'', manifest_id = ''other'', manifest_name = ''Other'',
      manifest_description = [], targets = [claude], agents = [helperAgent],
      author = None, repository = None\<rparr>"

definition mergeOptions :: InjectOptions where
  "mergeOptions =
     \<lparr>inject_projectRoot = sampleRoot, backup = False, force = False, merge = True\<rparr>"

text \<open>A project whose shared document is the given text, and nothing else.\<close>

definition documentOnly :: "string \<Rightarrow> fs" where
  "documentOnly document =
     [([], Dir), (sampleRoot, Dir), (instructionsPathOf sampleRoot, File document)]"

text \<open>
  A project in which both workflows are injected: the agent file of \<open>demo\<close> is listed
  first, the agent file of \<open>other\<close> second.
\<close>

definition twoWorkflows :: fs where
  "twoWorkflows =
     [([], Dir),
      (sampleRoot, Dir),
      (claudeDirOf sampleRoot, Dir),
      (agentsPathOf sampleRoot, Dir),
      (agentsPathOf sampleRoot @ [''writer.md''], File (generateAgentFile ''t'' writerAgent ''demo'')),
      (agentsPathOf sampleRoot @ [''helper.md''], File (generateAgentFile ''t'' helperAgent ''other''))]"

definition plainOptions :: InjectOptions where
  "plainOptions =
     \<lparr>inject_projectRoot = sampleRoot, backup = False, force = False, merge = False\<rparr>"






text \<open>An \<open>eject\<close> of the workflow \<open>demo\<close>.\<close>

definition demoEject :: EjectOptions where
  "demoEject = \<lparr>eject_projectRoot = sampleRoot, workflowId = Some ''demo'', clean = False\<rparr>"

text \<open>The two entries a listing of its agents directory reports.\<close>

definition writerInfo :: FileInfo where
  "writerInfo = \<lparr>fi_name = ''writer.md'', fi_path = agentsPathOf sampleRoot @ [''writer.md''],
                 isDirectory = False\<rparr>"

definition helperInfo :: FileInfo where
  "helperInfo = \<lparr>fi_name = ''helper.md'', fi_path = agentsPathOf sampleRoot @ [''helper.md''],
                 isDirectory = False\<rparr>"

text \<open>A workflow manager that knows the two workflows, and a command line without force.\<close>

definition sampleManager :: "string \<Rightarrow> WorkflowResult" where
  "sampleManager wid =
     (if wid = ''demo''
      then \<lparr>wr_success = True, wr_manifest = Some demoManifest, wr_error = None\<rparr>
      else if wid = ''other''
      then \<lparr>wr_success = True, wr_manifest = Some otherManifest, wr_error = None\<rparr>
      else \<lparr>wr_success = False, wr_manifest = None, wr_error = None\<rparr>)"

definition sampleCommand :: InjectCommandOptions where
  "sampleCommand =
     \<lparr>interactive = Some True, cmd_target = ''claude'', project = Some sampleRoot,
      cmd_backup = False, cmd_force = Some False, cmd_merge = None\<rparr>"

text \<open>
  A project with one agent file whose read fails, listed before the agent file of
  \<open>demo\<close>.
\<close>

definition oneUnreadable :: fs where
  "oneUnreadable =
     [([], Dir),
      (sampleRoot, Dir),
      (claudeDirOf sampleRoot, Dir),
      (agentsPathOf sampleRoot, Dir),
      (agentsPathOf sampleRoot @ [''broken.md''], Unreadable),
      (agentsPathOf sampleRoot @ [''writer.md''], File (generateAgentFile ''t'' writerAgent ''demo''))]"

definition brokenInfo :: FileInfo where
  "brokenInfo = \<lparr>fi_name = ''broken.md'', fi_path = agentsPathOf sampleRoot @ [''broken.md''],
                 isDirectory = False\<rparr>"

section \<open>Facts about strings and the marker region\<close>

lemma indexOf_Some_prefix: "indexOf s p = Some i \<Longrightarrow> i \<le> length s \<and> prefix p (drop i s)"
proof (induction s arbitrary: i)
  case Nil then show ?case by (auto split: if_splits)
next
  case (Cons c cs) then show ?case by (auto split: if_splits)
qed

lemma indexOf_Some_least: "indexOf s p = Some i \<Longrightarrow> j < i \<Longrightarrow> \<not> prefix p (drop j s)"
proof (induction s arbitrary: i j)
  case Nil then show ?case by (auto split: if_splits)
next
  case (Cons c cs)
  show ?case
  proof (cases "prefix p (c # cs)")
    case True with Cons.prems show ?thesis by simp
  next
    case False
    with Cons.prems obtain k where k: "indexOf cs p = Some k" "i = Suc k" by auto
    show ?thesis
    proof (cases j)
      case 0 with False show ?thesis by simp
    next
      case (Suc j') with Cons.IH[OF k(1), of j'] k Cons.prems show ?thesis by simp
    qed
  qed
qed

lemma indexOf_None_iff: "indexOf s p = None \<longleftrightarrow> (\<forall>j \<le> length s. \<not> prefix p (drop j s))"
proof (induction s)
  case Nil then show ?case by auto
next
  case (Cons c cs)
  show ?case
  proof (cases "prefix p (c # cs)")
    case True then show ?thesis by (auto intro: exI[of _ 0])
  next
    case False
    have "(\<forall>j \<le> length (c # cs). \<not> prefix p (drop j (c # cs))) \<longleftrightarrow> (\<forall>j \<le> length cs. \<not> prefix p (drop j cs))"
      (is "?L \<longleftrightarrow> ?R")
    proof
      assume L: ?L show ?R
      proof (intro allI impI)
        fix j assume "j \<le> length cs"
        with L[rule_format, of "Suc j"] show "\<not> prefix p (drop j cs)" by simp
      qed
    next
      assume R: ?R show ?L
      proof (intro allI impI)
        fix j assume j: "j \<le> length (c # cs)"
        show "\<not> prefix p (drop j (c # cs))"
        proof (cases j)
          case 0 with False show ?thesis by simp
        next
          case (Suc j') with R[rule_format, of j'] j show ?thesis by simp
        qed
      qed
    qed
    with False Cons.IH show ?thesis by simp
  qed
qed

lemma includes_str_iff: "includes_str s p \<longleftrightarrow> (\<exists>a b. s = a @ p @ b)"
proof
  assume "includes_str s p"
  then obtain i where i: "indexOf s p = Some i" by (auto simp: includes_str_def)
  from indexOf_Some_prefix[OF i] obtain b where "drop i s = p @ b" by (auto simp: prefix_def)
  then have "s = take i s @ p @ b" by (metis append_take_drop_id)
  then show "\<exists>a b. s = a @ p @ b" by blast
next
  assume "\<exists>a b. s = a @ p @ b"
  then obtain a b where s: "s = a @ p @ b" by blast
  have "length a \<le> length s" "prefix p (drop (length a) s)" using s by auto
  then have "indexOf s p \<noteq> None" using indexOf_None_iff[of s p] by blast
  then show "includes_str s p" by (simp add: includes_str_def)
qed

lemma indexOf_decomp: "indexOf s p = Some i \<Longrightarrow> s = take i s @ p @ drop (i + length p) s"
proof -
  assume i: "indexOf s p = Some i"
  from indexOf_Some_prefix[OF i] obtain b where b: "drop i s = p @ b" by (auto simp: prefix_def)
  have "drop (i + length p) s = drop (length p) (drop i s)" by (simp add: add.commute)
  also have "\<dots> = b" using b by simp
  finally show ?thesis using b by (metis append_take_drop_id)
qed





lemma indexOf_eq_SomeI:
  assumes "i \<le> length s" "prefix p (drop i s)" "\<And>j. j < i \<Longrightarrow> \<not> prefix p (drop j s)"
  shows "indexOf s p = Some i"
proof -
  have "indexOf s p \<noteq> None" using assms(1,2) indexOf_None_iff[of s p] by blast
  then obtain k where k: "indexOf s p = Some k" by auto
  have "\<not> k < i" using indexOf_Some_prefix[OF k] assms(3) by blast
  moreover have "\<not> i < k" using indexOf_Some_least[OF k] assms(2) by blast
  ultimately show ?thesis using k by simp
qed

lemma indexOfFrom_Some:
  assumes e: "indexOf d p = Some e" and s: "s \<le> e"
  shows "indexOfFrom d p s = Some e"
proof -
  from indexOf_Some_prefix[OF e] have el: "e \<le> length d" and pe: "prefix p (drop e d)" by auto
  have "indexOf (drop s d) p = Some (e - s)"
  proof (rule indexOf_eq_SomeI)
    show "e - s \<le> length (drop s d)" using el s by simp
    show "prefix p (drop (e - s) (drop s d))" using pe s by simp
    fix j assume "j < e - s"
    then have "j + s < e" by simp
    from indexOf_Some_least[OF e this] show "\<not> prefix p (drop j (drop s d))" by (simp add: add.commute)
  qed
  then show ?thesis using s el by (simp add: indexOfFrom_def)
qed

lemma indexOfFrom_None:
  assumes "indexOf d p = None"
  shows "indexOfFrom d p s = None"
proof (cases "s \<le> length d")
  case True
  have "indexOf (drop s d) p = None"
    unfolding indexOf_None_iff
  proof (intro allI impI)
    fix j assume "j \<le> length (drop s d)"
    then have "j + s \<le> length d" using True by simp
    with assms[unfolded indexOf_None_iff] have "\<not> prefix p (drop (j + s) d)" by blast
    then show "\<not> prefix p (drop j (drop s d))" by (simp add: add.commute)
  qed
  then show ?thesis by (simp add: indexOfFrom_def)
next
  case False then show ?thesis by (simp add: indexOfFrom_def)
qed

lemma sentinels_apart:
  assumes "indexOf d BTW_START_MARKER = Some s" "indexOf d BTW_END_MARKER = Some e"
  shows "s \<noteq> e"
proof
  assume "s = e"
  with indexOf_Some_prefix[OF assms(1)] indexOf_Some_prefix[OF assms(2)]
  have "prefix BTW_START_MARKER (drop e d)" "prefix BTW_END_MARKER (drop e d)" by auto
  then obtain a b where "drop e d = BTW_START_MARKER @ a" "drop e d = BTW_END_MARKER @ b"
    by (auto simp: prefix_def)
  then have "BTW_START_MARKER @ a = BTW_END_MARKER @ b" by simp
  then show False by (simp add: BTW_START_MARKER_def BTW_END_MARKER_def)
qed

lemma locate_spec: "locate d = (if endBeforeStart d then None else spec_locate d)"
proof (cases "indexOf d BTW_START_MARKER")
  case None then show ?thesis by (simp add: locate_def endBeforeStart_def spec_locate_def)
next
  case (Some s)
  show ?thesis
  proof (cases "indexOf d BTW_END_MARKER")
    case None
    with Some indexOfFrom_None[OF None, of s] show ?thesis
      by (simp add: locate_def endBeforeStart_def spec_locate_def)
  next
    case (Some e)
    note e = this
    show ?thesis
    proof (cases "e < s")
      case True with \<open>indexOf d BTW_START_MARKER = Some s\<close> e show ?thesis
        by (simp add: locate_def endBeforeStart_def)
    next
      case False
      with sentinels_apart[OF \<open>indexOf d BTW_START_MARKER = Some s\<close> e] have "s < e" by simp
      with indexOfFrom_Some[OF e, of s] \<open>indexOf d BTW_START_MARKER = Some s\<close> e show ?thesis
        by (simp add: locate_def endBeforeStart_def spec_locate_def)
    qed
  qed
qed

lemma removeBtwContent_locate:
  "removeBtwContent d =
     (case locate d of None \<Rightarrow> d
      | Some (s, e) \<Rightarrow> trim (take s d @ drop (e + length BTW_END_MARKER) d))"
  by (simp add: removeBtwContent_def locate_def split: option.splits)

lemma trim_eq_Nil_iff: "trim s = [] \<longleftrightarrow> (\<forall>c \<in> set s. isWhiteSpace c)"
proof -
  have "trim s = [] \<longleftrightarrow> (\<forall>x \<in> set (dropWhile isWhiteSpace s). isWhiteSpace x)"
    by (simp add: trim_def dropWhile_eq_Nil_conv)
  also have "\<dots> \<longleftrightarrow> dropWhile isWhiteSpace s = []"
  proof
    assume a: "\<forall>x \<in> set (dropWhile isWhiteSpace s). isWhiteSpace x"
    show "dropWhile isWhiteSpace s = []"
    proof (rule ccontr)
      assume n: "dropWhile isWhiteSpace s \<noteq> []"
      then have "\<not> isWhiteSpace (hd (dropWhile isWhiteSpace s))" by (rule hd_dropWhile)
      moreover have "hd (dropWhile isWhiteSpace s) \<in> set (dropWhile isWhiteSpace s)" using n by simp
      ultimately show False using a by blast
    qed
  next
    assume "dropWhile isWhiteSpace s = []"
    then show "\<forall>x \<in> set (dropWhile isWhiteSpace s). isWhiteSpace x"
      by (auto dest: set_dropWhileD)
  qed
  also have "\<dots> \<longleftrightarrow> (\<forall>c \<in> set s. isWhiteSpace c)" by (simp add: dropWhile_eq_Nil_conv)
  finally show ?thesis .
qed

lemma dropWhile_unchanged: "xs = [] \<or> \<not> P (hd xs) \<Longrightarrow> dropWhile P xs = xs"
  by (cases xs) auto

lemma trim_ends:
  assumes "trim s \<noteq> []"
  shows "\<not> isWhiteSpace (hd (trim s))" "\<not> isWhiteSpace (last (trim s))"
proof -
  let ?u = "dropWhile isWhiteSpace s"
  let ?v = "dropWhile isWhiteSpace (rev ?u)"
  have t: "trim s = rev ?v" by (simp add: trim_def)
  with assms have v: "?v \<noteq> []" by simp
  have u: "?u \<noteq> []"
  proof
    assume "?u = []"
    then have "rev ?u = []" by (simp only: rev_is_Nil_conv)
    then have "?v = []" by (simp only: dropWhile.simps)
    with v show False by blast
  qed
  have "\<not> isWhiteSpace (hd ?v)" using v by (rule hd_dropWhile)
  then show "\<not> isWhiteSpace (last (trim s))" using v t by (simp add: last_rev)
  have "?v = drop (length (takeWhile isWhiteSpace (rev ?u))) (rev ?u)"
    by (rule dropWhile_eq_drop)
  then have "last ?v = last (rev ?u)" using v by (metis last_drop drop_eq_Nil not_le)
  also have "\<dots> = hd ?u" using u by (simp add: last_rev)
  finally have "hd (trim s) = hd ?u" using t v by (simp add: hd_rev)
  moreover have "\<not> isWhiteSpace (hd ?u)" using u by (rule hd_dropWhile)
  ultimately show "\<not> isWhiteSpace (hd (trim s))" by simp
qed

lemma trim_unchanged:
  assumes "t = [] \<or> (\<not> isWhiteSpace (hd t) \<and> \<not> isWhiteSpace (last t))"
  shows "trim t = t"
proof (cases "t = []")
  case True then show ?thesis by (simp add: trim_def)
next
  case False
  with assms have h: "\<not> isWhiteSpace (hd t)" and l: "\<not> isWhiteSpace (last t)" by auto
  have 1: "dropWhile isWhiteSpace t = t" using h by (intro dropWhile_unchanged) simp
  have "hd (rev t) = last t" using False by (simp add: hd_rev)
  then have 2: "dropWhile isWhiteSpace (rev t) = rev t" using l by (intro dropWhile_unchanged) simp
  show ?thesis by (simp add: trim_def 1 2)
qed

lemma trim_trim: "trim (trim s) = trim s"
  using trim_ends[of s] by (intro trim_unchanged) blast

lemma includes_trim_nonempty:
  assumes "includes_str d p" "p \<noteq> []" "\<not> isWhiteSpace (hd p)"
  shows "trim d \<noteq> []"
proof -
  from assms(1) obtain a b where "d = a @ p @ b" by (auto simp: includes_str_iff)
  then have "hd p \<in> set d" using assms(2) by (cases p) auto
  with assms(3) show ?thesis by (auto simp: trim_eq_Nil_iff)
qed

lemma start_marker_trim: "includes_str d BTW_START_MARKER \<Longrightarrow> trim d \<noteq> []"
  using includes_trim_nonempty[of d BTW_START_MARKER]
  by (simp add: BTW_START_MARKER_def isWhiteSpace_def)

lemma readFile_Inr: "fs_readFile fs p = Inr d \<longleftrightarrow> map_of fs p = Some (File d)"
  by (auto simp: fs_readFile_def split: option.splits node.splits)

lemma writeFile_over_file:
  "fs_readFile fs p = Inr d \<Longrightarrow> fs_writeFile fs p c False = Inr (putNode p (File c) fs)"
  by (simp add: readFile_Inr fs_writeFile_def)

lemma locate_Some_includes: "locate d = Some (s, e) \<Longrightarrow> includes_str d BTW_START_MARKER"
  by (auto simp: locate_def includes_str_def split: option.splits if_splits)

lemma updateClaudeMd_append:
  assumes r: "fs_readFile fs p = Inr d"
      and st: "includes_str d BTW_START_MARKER" and l: "locate d = None"
      and mode: "merge options \<or> \<not> force options"
  shows "updateClaudeMd now p m options fs =
           (Inr (), putNode p (File (trim d @ separator @ generateInstructions now m)) fs)"
proof -
  from l have c: "removeBtwContent d = d" by (simp add: removeBtwContent_locate)
  have ex: "fs_exists fs p" using r by (simp add: readFile_Inr fs_exists_def)
  have mc: "mergedContent d (generateInstructions now m) = trim d @ separator @ generateInstructions now m"
    using start_marker_trim[OF st] by (simp add: mergedContent_def c)
  show ?thesis
    using mode r ex st mc writeFile_over_file[OF r]
    by (auto simp: updateClaudeMd_def attempt_def Let_def)
qed

lemma spec_locate_None: "spec_locate d = None \<Longrightarrow> locate d = None"
  by (simp add: locate_spec)

lemma updateClaudeMd_located:
  assumes r: "fs_readFile fs p = Inr d" and l: "locate d = Some (s, e)"
  shows "updateClaudeMd now p m options fs =
           (Inr (),
            putNode p
              (File (if merge options \<or> \<not> force options
                     then (let rest = trim (take s d @ drop (e + length BTW_END_MARKER) d)
                           in if rest = [] then generateInstructions now m
                              else rest @ separator @ generateInstructions now m)
                     else generateInstructions now m)) fs)"
proof -
  have c: "removeBtwContent d = trim (take s d @ drop (e + length BTW_END_MARKER) d)"
    using l by (simp add: removeBtwContent_locate)
  have ex: "fs_exists fs p" using r by (simp add: readFile_Inr fs_exists_def)
  have mc: "mergedContent d (generateInstructions now m) =
     (let rest = trim (take s d @ drop (e + length BTW_END_MARKER) d)
                           in if rest = [] then generateInstructions now m
                              else rest @ separator @ generateInstructions now m)"
    by (simp add: mergedContent_def c trim_trim Let_def)
  show ?thesis
    using r ex locate_Some_includes[OF l] mc writeFile_over_file[OF r]
    by (auto simp: updateClaudeMd_def attempt_def Let_def)
qed

section \<open>Facts about the scans\<close>

lemma findBtwAgents_loop_step:
  "findBtwAgents_loop fs (f # files)
     = (if btwMarked fs f then fi_path f # findBtwAgents_loop fs files
        else findBtwAgents_loop fs files)"
  by (auto simp: btwMarked_def split: sum.splits)

lemma findBtwAgents_loop_filter:
  "findBtwAgents_loop fs files = map fi_path (filter (btwMarked fs) files)"
  by (induction files) (simp_all add: findBtwAgents_loop_step del: findBtwAgents_loop.simps(2))

lemma findBtwAgentsForWorkflow_loop_step:
  "findBtwAgentsForWorkflow_loop fs w (f # files)
     = (if markerOf fs f = Some w then fi_path f # findBtwAgentsForWorkflow_loop fs w files
        else findBtwAgentsForWorkflow_loop fs w files)"
  by (auto simp: markerOf_def split: sum.splits option.splits)

lemma findBtwAgentsForWorkflow_loop_filter:
  "findBtwAgentsForWorkflow_loop fs w files
     = map fi_path (filter (\<lambda>f. markerOf fs f = Some w) files)"
  by (induction files)
     (simp_all add: findBtwAgentsForWorkflow_loop_step del: findBtwAgentsForWorkflow_loop.simps(2))

lemma getAllWorkflowIds_loop_step:
  "getAllWorkflowIds_loop fs (f # files) acc
     = (case markerOf fs f of
          None \<Rightarrow> getAllWorkflowIds_loop fs files acc
        | Some w \<Rightarrow> getAllWorkflowIds_loop fs files (setAdd w acc))"
  by (auto simp: markerOf_def split: sum.splits option.splits)

lemma getAllWorkflowIds_loop_fold:
  "getAllWorkflowIds_loop fs files acc = fold setAdd (List.map_filter (markerOf fs) files) acc"
  by (induction files arbitrary: acc)
     (simp_all add: getAllWorkflowIds_loop_step List.map_filter_simps
        del: getAllWorkflowIds_loop.simps(2) split: option.splits)

lemma fold_setAdd_prefix: "\<exists>ys. fold setAdd xs acc = acc @ ys"
proof (induction xs arbitrary: acc)
  case Nil then show ?case by simp
next
  case (Cons x xs)
  obtain ys where ys: "fold setAdd xs (setAdd x acc) = setAdd x acc @ ys" using Cons.IH by blast
  obtain zs where zs: "setAdd x acc = acc @ zs" by (cases "x \<in> set acc") (simp_all add: setAdd_def)
  have "fold setAdd (x # xs) acc = acc @ (zs @ ys)" using ys zs by simp
  then show ?case by blast
qed

lemma fold_setAdd_set: "set (fold setAdd xs acc) = set acc \<union> set xs"
  by (induction xs arbitrary: acc) (auto simp: setAdd_def)

lemma fold_setAdd_distinct: "distinct acc \<Longrightarrow> distinct (fold setAdd xs acc)"
  by (induction xs arbitrary: acc) (auto simp: setAdd_def)

lemma map_filter_all_None: "\<forall>x \<in> set xs. f x = None \<Longrightarrow> List.map_filter f xs = []"
  by (induction xs) (auto simp: List.map_filter_simps)

lemma map_filter_append: "List.map_filter f (xs @ ys) = List.map_filter f xs @ List.map_filter f ys"
  by (simp add: List.map_filter_def)

lemma first_marker_heads_ids:
  assumes "\<forall>f \<in> set pre. markerOf fs f = None" "markerOf fs file = Some w"
  shows "\<exists>ids. getAllWorkflowIds_loop fs (pre @ file # rest) [] = w # ids"
proof -
  have "List.map_filter (markerOf fs) (pre @ file # rest) = w # List.map_filter (markerOf fs) rest"
    using assms by (simp add: map_filter_append map_filter_all_None List.map_filter_simps)
  then have "getAllWorkflowIds_loop fs (pre @ file # rest) []
               = fold setAdd (List.map_filter (markerOf fs) rest) [w]"
    by (simp add: getAllWorkflowIds_loop_fold setAdd_def)
  with fold_setAdd_prefix[of "List.map_filter (markerOf fs) rest" "[w]"] show ?thesis by auto
qed

lemma includes_Cons: "includes_str cs p \<Longrightarrow> includes_str (c # cs) p"
  by (auto simp: includes_str_def)

lemma prefix_includes: "prefix p s \<Longrightarrow> includes_str s p"
  by (cases s) (auto simp: includes_str_def)

lemma matchWorkflow_includes: "matchWorkflow c = Some m \<Longrightarrow> includes_str c ''# workflow:''"
proof (induction c)
  case Nil then show ?case by simp
next
  case (Cons x xs)
  show ?case
  proof (cases "prefix ''# workflow: '' (x # xs)")
    case True
    have "prefix ''# workflow:'' ''# workflow: ''" by simp
    then have "prefix ''# workflow:'' (x # xs)" using True by (rule prefix_order.trans)
    then show ?thesis by (rule prefix_includes)
  next
    case False
    with Cons.prems have "matchWorkflow xs = Some m" by (auto simp: Let_def split: if_splits)
    then show ?thesis using Cons.IH includes_Cons by blast
  qed
qed

lemma marker_btwMarked: "markerOf fs f = Some w \<Longrightarrow> btwMarked fs f"
  by (auto simp: markerOf_def btwMarked_def matchWorkflow_includes split: if_splits sum.splits)

lemma unreadable_unmarked:
  "fs_readFile fs (fi_path f) = Inl e \<Longrightarrow> \<not> btwMarked fs f \<and> markerOf fs f = None"
  by (simp add: markerOf_def btwMarked_def)

lemma getAllWorkflowIds_distinct: "distinct (getAllWorkflowIdsFromAgents fs ap)"
  by (simp add: getAllWorkflowIdsFromAgents_def getAllWorkflowIds_loop_fold fold_setAdd_distinct
      split: sum.splits)

lemma getStatus_not_injected: "\<not> isInjected (getStatus fs root) \<Longrightarrow> getStatus fs root = notInjected"
  by (auto simp: getStatus_def Let_def notInjected_def split: if_splits)

lemma getStatus_isInjected:
  "isInjected (getStatus fs root) \<longleftrightarrow> findBtwAgents fs (agentsPathOf root) \<noteq> []"
  by (simp add: getStatus_def Let_def notInjected_def)

lemma findBtwAgents_listed:
  "fs_readdir fs ap = Inr files \<Longrightarrow> findBtwAgents fs ap = map fi_path (filter (btwMarked fs) files)"
  by (simp add: findBtwAgents_def findBtwAgents_loop_filter)

lemma findBtwAgents_nonempty_iff:
  "fs_readdir fs ap = Inr files \<Longrightarrow> findBtwAgents fs ap \<noteq> [] \<longleftrightarrow> (\<exists>f \<in> set files. btwMarked fs f)"
  by (auto simp: findBtwAgents_listed filter_empty_conv)

lemma status_first_listed:
  assumes l: "fs_readdir fs (agentsPathOf root) = Inr (pre @ file # rest)"
      and p: "\<forall>f \<in> set pre. markerOf fs f = None"
      and m: "markerOf fs file = Some w"
  shows "\<exists>ids. getAllWorkflowIdsFromAgents fs (agentsPathOf root) = w # ids \<and> w \<notin> set ids"
    and "isInjected (getStatus fs root)"
    and "status_workflowId (getStatus fs root) = (if w = [] then None else Some w)"
proof -
  from first_marker_heads_ids[OF p m, of rest] obtain ids
    where ids: "getAllWorkflowIdsFromAgents fs (agentsPathOf root) = w # ids"
    using l by (auto simp: getAllWorkflowIdsFromAgents_def)
  have "distinct (w # ids)" using getAllWorkflowIds_distinct[of fs "agentsPathOf root"] ids by simp
  with ids show "\<exists>ids. getAllWorkflowIdsFromAgents fs (agentsPathOf root) = w # ids \<and> w \<notin> set ids"
    by auto
  have "btwMarked fs file" using m by (rule marker_btwMarked)
  then have ne: "findBtwAgents fs (agentsPathOf root) \<noteq> []"
    using findBtwAgents_nonempty_iff[OF l] by auto
  then show "isInjected (getStatus fs root)" by (simp add: getStatus_isInjected)
  show "status_workflowId (getStatus fs root) = (if w = [] then None else Some w)"
    using ne ids by (simp add: getStatus_def Let_def getWorkflowIdFromAgents_def)
qed

lemma findBtwAgents_listing_fails: "fs_readdir fs ap = Inl e \<Longrightarrow> findBtwAgents fs ap = []"
  by (simp add: findBtwAgents_def)

lemma getStatus_listing_fails:
  "fs_readdir fs (agentsPathOf root) = Inl e \<Longrightarrow> getStatus fs root = notInjected"
  by (simp add: getStatus_def Let_def findBtwAgents_listing_fails)

lemma btwMarked_cong:
  "fs_readFile fs1 (fi_path f) = fs_readFile fs2 (fi_path f) \<Longrightarrow> btwMarked fs1 f = btwMarked fs2 f"
  by (simp add: btwMarked_def)

lemma markerOf_cong:
  "fs_readFile fs1 (fi_path f) = fs_readFile fs2 (fi_path f) \<Longrightarrow> markerOf fs1 f = markerOf fs2 f"
  by (simp add: markerOf_def)

lemma map_filter_cong_set: "(\<And>x. x \<in> set xs \<Longrightarrow> f x = g x) \<Longrightarrow> List.map_filter f xs = List.map_filter g xs"
  by (induction xs) (auto simp: List.map_filter_simps split: option.splits)

lemma getStatus_same_reads:
  assumes l1: "fs_readdir fs1 (agentsPathOf root) = Inr files"
      and l2: "fs_readdir fs2 (agentsPathOf root) = Inr files"
      and r: "\<forall>f \<in> set files. fs_readFile fs1 (fi_path f) = fs_readFile fs2 (fi_path f)"
      and b: "\<forall>f \<in> set files. fs_exists fs1 (btwBackupPath (fi_path f))
                                = fs_exists fs2 (btwBackupPath (fi_path f))"
  shows "getStatus fs1 root = getStatus fs2 root"
proof -
  have bm: "\<And>f. f \<in> set files \<Longrightarrow> btwMarked fs1 f = btwMarked fs2 f"
    using r btwMarked_cong by blast
  have mk: "\<And>f. f \<in> set files \<Longrightarrow> markerOf fs1 f = markerOf fs2 f"
    using r markerOf_cong by blast
  have "filter (btwMarked fs1) files = filter (btwMarked fs2) files"
    using bm by (intro filter_cong) auto
  then have a: "findBtwAgents fs1 (agentsPathOf root) = findBtwAgents fs2 (agentsPathOf root)"
    by (simp add: findBtwAgents_listed[OF l1] findBtwAgents_listed[OF l2])
  have "List.map_filter (markerOf fs1) files = List.map_filter (markerOf fs2) files"
    using mk by (rule map_filter_cong_set)
  then have i: "getAllWorkflowIdsFromAgents fs1 (agentsPathOf root)
              = getAllWorkflowIdsFromAgents fs2 (agentsPathOf root)"
    by (simp add: getAllWorkflowIdsFromAgents_def l1 l2 getAllWorkflowIds_loop_fold)
  have "set (findBtwAgents fs2 (agentsPathOf root)) \<subseteq> fi_path ` set files"
    by (auto simp: findBtwAgents_listed[OF l2])
  then have "list_ex (\<lambda>agentFile. fs_exists fs1 (btwBackupPath agentFile))
               (findBtwAgents fs2 (agentsPathOf root))
           = list_ex (\<lambda>agentFile. fs_exists fs2 (btwBackupPath agentFile))
               (findBtwAgents fs2 (agentsPathOf root))"
    using b unfolding list_ex_iff by blast
  then show ?thesis
    by (simp add: getStatus_def Let_def a i getWorkflowIdFromAgents_def)
qed

section \<open>Facts about the file system\<close>

lemma readdir_Inr_Dir: "fs_readdir fs d = Inr files \<Longrightarrow> map_of fs d = Some Dir"
  by (auto simp: fs_readdir_def split: option.splits node.splits)

lemma injected_agents_dir:
  assumes "isWorkflowInjected fs root wid"
  shows "map_of fs (agentsPathOf root) = Some Dir"
proof -
  from assms have "getAllWorkflowIdsFromAgents fs (agentsPathOf root) \<noteq> []"
    by (auto simp: isWorkflowInjected_def)
  then obtain files where "fs_readdir fs (agentsPathOf root) = Inr files"
    by (auto simp: getAllWorkflowIdsFromAgents_def split: sum.splits)
  then show ?thesis by (rule readdir_Inr_Dir)
qed

lemma parentsExist_parent:
  assumes "parentsExist fs" "map_of fs p = Some n" "p \<noteq> []"
  shows "map_of fs (butlast p) = Some Dir"
proof -
  from assms(2) have "(p, n) \<in> set fs" by (rule map_of_SomeD)
  with assms(1,3) show ?thesis by (auto simp: parentsExist_def)
qed

lemma mkdir_existing: "map_of fs p = Some Dir \<Longrightarrow> fs_mkdir fs p = Inr fs"
  by (subst fs_mkdir.simps) simp

lemma inject_body_already:
  assumes f: "\<not> force options"
      and i: "isWorkflowInjected fs (inject_projectRoot options) (manifest_id manifest)"
      and w: "parentsExist fs"
  shows "inject_body now manifest options fs = (Inl (alreadyInjected (manifest_id manifest)), fs)"
proof -
  let ?root = "inject_projectRoot options"
  have a: "map_of fs (agentsPathOf ?root) = Some Dir" using i by (rule injected_agents_dir)
  have "butlast (agentsPathOf ?root) = claudeDirOf ?root"
    by (simp add: agentsPathOf_def claudeDirOf_def butlast_append)
  with parentsExist_parent[OF w a] have c: "map_of fs (claudeDirOf ?root) = Some Dir"
    by (simp add: agentsPathOf_def)
  have m1: "fs_mkdir fs (claudeDirOf ?root) = Inr fs" using c by (rule mkdir_existing)
  have m2: "fs_mkdir fs (agentsPathOf ?root) = Inr fs" using a by (rule mkdir_existing)
  show ?thesis
    using f i by (simp add: inject_body_def Let_def m1 m2 attempt_def andThen_def)
qed

section \<open>Facts about removal and the frame of an ejection\<close>

lemma map_of_remove_plain:
  "map_of (filter (\<lambda>(k, n). k \<noteq> p) fs) q = (if q = p then None else map_of fs q)"
  by (induction fs) auto

lemma map_of_remove_rec:
  "map_of (filter (\<lambda>(k, n). \<not> prefix p k) fs) q = (if prefix p q then None else map_of fs q)"
  by (induction fs) auto

lemma map_of_putNode: "map_of (putNode p n fs) q = (if q = p then Some n else map_of fs q)"
  by (induction fs) auto

lemma remove_plain_lookup:
  "fs_remove fs p False = Inr fs1 \<Longrightarrow> map_of fs1 q = (if q = p then None else map_of fs q)"
  by (auto simp: fs_remove_def map_of_remove_plain split: if_splits)

lemma remove_rec_lookup:
  "fs_remove fs p True = Inr fs1 \<Longrightarrow> map_of fs1 q = (if prefix p q then None else map_of fs q)"
  by (auto simp: fs_remove_def map_of_remove_rec)

lemma removeAgents_frame:
  "removeAgents ts fs = (r, fs1) \<Longrightarrow>
     map_of fs1 q = map_of fs q \<or>
     (map_of fs1 q = None \<and> (q \<in> set ts \<or> q \<in> btwBackupPath ` set ts))"
proof (induction ts arbitrary: fs)
  case Nil then show ?case by simp
next
  case (Cons t ts)
  show ?case
  proof (cases "fs_remove fs t False")
    case (Inl e) with Cons.prems show ?thesis by simp
  next
    case (Inr fsa)
    note a = remove_plain_lookup[OF Inr, of q]
    show ?thesis
    proof (cases "fs_exists fsa (btwBackupPath t)")
      case False
      with Cons.prems Inr have "removeAgents ts fsa = (r, fs1)" by simp
      from Cons.IH[OF this] a show ?thesis by (auto split: if_splits)
    next
      case True
      show ?thesis
      proof (cases "fs_remove fsa (btwBackupPath t) False")
        case (Inl e)
        with Cons.prems Inr True have "fs1 = fsa" by simp
        with a show ?thesis by (auto split: if_splits)
      next
        case (Inr fsb)
        note b = remove_plain_lookup[OF Inr, of q]
        from Cons.prems \<open>fs_remove fs t False = Inr fsa\<close> True Inr
        have "removeAgents ts fsb = (r, fs1)" by simp
        from Cons.IH[OF this] a b show ?thesis by (auto split: if_splits)
      qed
    qed
  qed
qed

lemma removeAgents_done:
  "removeAgents ts fs = (Inr u, fs1) \<Longrightarrow> t \<in> set ts \<Longrightarrow> map_of fs1 t = None"
proof (induction ts arbitrary: fs)
  case Nil then show ?case by simp
next
  case (Cons x ts)
  from Cons.prems(1) obtain fsa where a: "fs_remove fs x False = Inr fsa"
    by (cases "fs_remove fs x False") auto
  have xa: "map_of fsa x = None" using remove_plain_lookup[OF a, of x] by simp
  show ?case
  proof (cases "fs_exists fsa (btwBackupPath x)")
    case False
    with Cons.prems(1) a have rest: "removeAgents ts fsa = (Inr u, fs1)" by simp
    show ?thesis
    proof (cases "t \<in> set ts")
      case True then show ?thesis using Cons.IH[OF rest] by simp
    next
      case False
      with Cons.prems(2) have "t = x" by simp
      with removeAgents_frame[OF rest, of x] xa show ?thesis by auto
    qed
  next
    case True
    with Cons.prems(1) a obtain fsb where b: "fs_remove fsa (btwBackupPath x) False = Inr fsb"
      by (cases "fs_remove fsa (btwBackupPath x) False") auto
    with Cons.prems(1) a True have rest: "removeAgents ts fsb = (Inr u, fs1)" by simp
    have xb: "map_of fsb x = None" using remove_plain_lookup[OF b, of x] xa by simp
    show ?thesis
    proof (cases "t \<in> set ts")
      case True then show ?thesis using Cons.IH[OF rest] by simp
    next
      case False
      with Cons.prems(2) have "t = x" by simp
      with removeAgents_frame[OF rest, of x] xb show ?thesis by auto
    qed
  qed
qed

lemma listed_child:
  assumes "fs_readdir fs d = Inr files" "f \<in> set files"
  shows "fi_path f \<noteq> []" "butlast (fi_path f) = d" "fi_name f = last (fi_path f)"
    "map_of fs (fi_path f) \<noteq> None"
proof -
  from assms obtain p n where pn: "(p, n) \<in> set fs" "p \<noteq> []" "butlast p = d"
    "f = \<lparr>fi_name = last p, fi_path = p, isDirectory = (n = Dir)\<rparr>"
    by (auto simp: fs_readdir_def split: option.splits node.splits)
  then show "fi_path f \<noteq> []" "butlast (fi_path f) = d" "fi_name f = last (fi_path f)" by simp_all
  from pn(1) have "p \<in> fst ` set fs" by force
  then show "map_of fs (fi_path f) \<noteq> None" using pn(4) by (simp add: map_of_eq_None_iff)
qed

lemma readdir_empty_children:
  assumes "fs_readdir fs d = Inr []" "q \<noteq> []" "butlast q = d"
  shows "map_of fs q = None"
proof -
  from assms(1) have "filter (\<lambda>(p, n). p \<noteq> [] \<and> butlast p = d) fs = []"
    by (auto simp: fs_readdir_def split: option.splits node.splits)
  then have "\<forall>x \<in> set fs. \<not> (fst x \<noteq> [] \<and> butlast (fst x) = d)"
    by (auto simp: filter_empty_conv)
  with assms(2,3) have "q \<notin> fst ` set fs" by auto
  then show ?thesis by (simp add: map_of_eq_None_iff)
qed

lemma readdir_cases:
  obtains (fails) e where "fs_readdir fs d = Inl e"
  | (lists) files where "fs_readdir fs d = Inr files" "map_of fs d = Some Dir"
  by (cases "fs_readdir fs d") (auto dest: readdir_Inr_Dir)

lemma eject_targets:
  assumes "fs_readdir fs (agentsPathOf (eject_projectRoot options)) = Inr files"
  shows "(case givenId options of
            Some w \<Rightarrow> findBtwAgentsForWorkflow fs (agentsPathOf (eject_projectRoot options)) w
          | None \<Rightarrow> findBtwAgents fs (agentsPathOf (eject_projectRoot options)))
         = map fi_path (filter (ownedBy options fs) files)"
proof (cases "givenId options")
  case None
  then have "ownedBy options fs = btwMarked fs" by (simp add: ownedBy_def fun_eq_iff)
  with None assms show ?thesis by (simp add: findBtwAgents_listed)
next
  case (Some w)
  then have "ownedBy options fs = (\<lambda>f. markerOf fs f = Some w)" by (simp add: ownedBy_def fun_eq_iff)
  with Some assms show ?thesis
    by (simp add: findBtwAgentsForWorkflow_def findBtwAgentsForWorkflow_loop_filter)
qed

lemma child_not_parent: "q \<noteq> [] \<Longrightarrow> butlast q = d \<Longrightarrow> q \<noteq> d"
  by (metis length_butlast diff_less length_greater_0_conv less_irrefl zero_less_one)

lemma backup_sibling: "p \<noteq> [] \<Longrightarrow> btwBackupPath p \<noteq> [] \<and> butlast (btwBackupPath p) = butlast p"
  by (simp add: btwBackupPath_def)

lemma ejectAgents_frame:
  assumes e: "ejectAgents options fs = (r, fsA)"
      and l: "fs_readdir fs (agentsPathOf (eject_projectRoot options)) = Inr files"
  shows "q \<noteq> [] \<Longrightarrow> butlast q = agentsPathOf (eject_projectRoot options) \<Longrightarrow>
           map_of fsA q = map_of fs q \<or>
           (map_of fsA q = None \<and>
            (\<exists>g \<in> set files. ownedBy options fs g \<and>
               (q = fi_path g \<or> q = btwBackupPath (fi_path g))))"
    and "map_of fsA (agentsPathOf (eject_projectRoot options)) = Some Dir \<or>
         (\<forall>c. c \<noteq> [] \<and> butlast c = agentsPathOf (eject_projectRoot options)
               \<longrightarrow> map_of fsA c = None)"
    and "r = Inr u \<Longrightarrow> g \<in> set files \<Longrightarrow> ownedBy options fs g \<Longrightarrow> map_of fsA (fi_path g) = None"
proof -
  let ?ap = "agentsPathOf (eject_projectRoot options)"
  let ?ts = "map fi_path (filter (ownedBy options fs) files)"
  obtain r1 fs1 where ra: "removeAgents ?ts fs = (r1, fs1)" by (cases "removeAgents ?ts fs") auto
  have ts_child: "\<And>t. t \<in> set ?ts \<Longrightarrow> t \<noteq> [] \<and> butlast t = ?ap"
    using listed_child(1,2)[OF l] by auto
  have frame1: "\<And>x. map_of fs1 x = map_of fs x \<or>
     (map_of fs1 x = None \<and> (x \<in> set ?ts \<or> x \<in> btwBackupPath ` set ?ts))"
    using removeAgents_frame[OF ra] by blast
  have ap1: "map_of fs1 ?ap = Some Dir"
  proof -
    have "?ap \<notin> set ?ts" using ts_child child_not_parent by blast
    moreover have "?ap \<notin> btwBackupPath ` set ?ts"
    proof
      assume "?ap \<in> btwBackupPath ` set ?ts"
      then obtain t where t: "t \<in> set ?ts" "?ap = btwBackupPath t" by blast
      with ts_child[OF t(1)] backup_sibling[of t] have "?ap \<noteq> []" "butlast ?ap = ?ap" by auto
      then show False using child_not_parent by blast
    qed
    ultimately show ?thesis using frame1[of ?ap] readdir_Inr_Dir[OF l] by auto
  qed
  have body: "ejectAgents options fs =
     andThen (r1, fs1) (\<lambda>u fsx.
           case fs_readdir fsx ?ap of
             Inl e \<Rightarrow> (Inr (), fsx)
           | Inr remainingFiles \<Rightarrow>
               if remainingFiles = []
               then (case fs_remove fsx ?ap True of
                       Inl e \<Rightarrow> (Inr (), fsx)
                     | Inr fs2 \<Rightarrow> (Inr (), fs2))
               else (Inr (), fsx))"
    by (simp add: ejectAgents_def Let_def eject_targets[OF l] ra)
  have owned: "\<And>x. x \<in> set ?ts \<or> x \<in> btwBackupPath ` set ?ts \<Longrightarrow>
     \<exists>g \<in> set files. ownedBy options fs g \<and> (x = fi_path g \<or> x = btwBackupPath (fi_path g))"
    by auto
  consider (err) e1 where "r1 = Inl e1" "fsA = fs1" "r = Inl e1"
    | (kept) "r1 = Inr ()" "fsA = fs1" "r = Inr ()"
    | (emptied) "r1 = Inr ()" "r = Inr ()" "fs_readdir fs1 ?ap = Inr []"
        "fs_remove fs1 ?ap True = Inr fsA"
  proof (cases r1)
    case (Inl e1)
    with e body have "fsA = fs1" "r = Inl e1" by (simp_all add: andThen_def)
    with Inl show ?thesis using err by blast
  next
    case (Inr u1)
    show ?thesis
    proof (cases "fs_readdir fs1 ?ap")
      case (Inl e2)
      with e body Inr have "fsA = fs1" "r = Inr ()" by (simp_all add: andThen_def)
      with Inr show ?thesis using kept by simp
    next
      case (Inr rem)
      note rem = this
      show ?thesis
      proof (cases "rem = []")
        case False
        with e body \<open>r1 = Inr u1\<close> rem have "fsA = fs1" "r = Inr ()" by (simp_all add: andThen_def)
        with \<open>r1 = Inr u1\<close> show ?thesis using kept by simp
      next
        case True
        have rr: "fs_remove fs1 ?ap True = Inr (filter (\<lambda>(q, n). \<not> prefix ?ap q) fs1)"
          by (simp add: fs_remove_def)
        with e body \<open>r1 = Inr u1\<close> rem True
        have "fsA = filter (\<lambda>(q, n). \<not> prefix ?ap q) fs1" "r = Inr ()"
          by (simp_all add: andThen_def)
        with rr rem True \<open>r1 = Inr u1\<close> show ?thesis using emptied by simp
      qed
    qed
  qed
  note cases3 = this
  {
    assume q: "q \<noteq> []" "butlast q = ?ap"
    have "map_of fsA q = map_of fs1 q"
    proof (cases rule: cases3)
      case err then show ?thesis by simp
    next
      case kept then show ?thesis by simp
    next
      case emptied
      have "map_of fs1 q = None" using readdir_empty_children[OF emptied(3) q] .
      moreover have "map_of fsA q = None"
        using remove_rec_lookup[OF emptied(4), of q] calculation by (simp split: if_splits)
      ultimately show ?thesis by simp
    qed
    with frame1[of q] owned[of q]
    show "map_of fsA q = map_of fs q \<or>
           (map_of fsA q = None \<and>
            (\<exists>g \<in> set files. ownedBy options fs g \<and>
               (q = fi_path g \<or> q = btwBackupPath (fi_path g))))"
      by auto
  }
  show "map_of fsA ?ap = Some Dir \<or> (\<forall>c. c \<noteq> [] \<and> butlast c = ?ap \<longrightarrow> map_of fsA c = None)"
  proof (cases rule: cases3)
    case err then show ?thesis using ap1 by simp
  next
    case kept then show ?thesis using ap1 by simp
  next
    case emptied
    have "\<forall>c. c \<noteq> [] \<and> butlast c = ?ap \<longrightarrow> map_of fsA c = None"
    proof (intro allI impI)
      fix c assume c: "c \<noteq> [] \<and> butlast c = ?ap"
      then have "map_of fs1 c = None" using readdir_empty_children[OF emptied(3)] by blast
      then show "map_of fsA c = None"
        using remove_rec_lookup[OF emptied(4), of c] by (simp split: if_splits)
    qed
    then show ?thesis by blast
  qed
  {
    assume ok: "r = Inr u" and g: "g \<in> set files" "ownedBy options fs g"
    then have gt: "fi_path g \<in> set ?ts" by auto
    have r1ok: "r1 = Inr ()" using ok by (cases rule: cases3) auto
    have "map_of fs1 (fi_path g) = None" using removeAgents_done[OF ra[unfolded r1ok] gt] .
    moreover have "map_of fsA (fi_path g) = None \<or> map_of fsA (fi_path g) = map_of fs1 (fi_path g)"
    proof (cases rule: cases3)
      case err then show ?thesis by simp
    next
      case kept then show ?thesis by simp
    next
      case emptied
      then show ?thesis using remove_rec_lookup[OF emptied(4), of "fi_path g"] by (simp split: if_splits)
    qed
    ultimately show "map_of fsA (fi_path g) = None" by auto
  }
qed

lemma writeFile_frame:
  "fs_writeFile fs p c False = Inr fs1 \<Longrightarrow> map_of fs1 q = (if q = p then Some (File c) else map_of fs q)"
  by (auto simp: fs_writeFile_def map_of_putNode split: if_splits)

lemma attempt_cases:
  assumes "attempt fs x = (r, fs1)"
  obtains (fails) e where "x = Inl e" "r = Inl e" "fs1 = fs"
  | (succeeds) "x = Inr fs1" "r = Inr ()"
  using assms by (cases x) (auto simp: attempt_def)

lemma ejectClaudeMd_frame:
  assumes "ejectClaudeMd options fsA = (r, fsB)"
      and "q \<noteq> instructionsPathOf (eject_projectRoot options)"
  shows "map_of fsB q = map_of fsA q"
proof -
  let ?ip = "instructionsPathOf (eject_projectRoot options)"
  show ?thesis
  proof (cases "fs_exists fsA ?ip")
    case False with assms show ?thesis by (simp add: ejectClaudeMd_def Let_def)
  next
    case True
    show ?thesis
    proof (cases "fs_readFile fsA ?ip")
      case (Inl e) with assms True show ?thesis by (simp add: ejectClaudeMd_def Let_def)
    next
      case (Inr content)
      let ?should = "(case givenId options of None \<Rightarrow> True
                      | Some w \<Rightarrow> includes_str content (''BTW:'' @ w @ '':''))"
      show ?thesis
      proof (cases ?should)
        case False
        with assms True Inr show ?thesis by (simp add: ejectClaudeMd_def Let_def)
      next
        case should: True
        show ?thesis
        proof (cases "trim (removeBtwContent content) \<noteq> []")
          case True
          with assms \<open>fs_exists fsA ?ip\<close> Inr should
          have "attempt fsA (fs_writeFile fsA ?ip (trim (removeBtwContent content) @ [CHR 0x0A]) False)
                  = (r, fsB)"
            by (simp add: ejectClaudeMd_def Let_def)
          then show ?thesis
            using assms(2) by (cases rule: attempt_cases) (auto dest: writeFile_frame[where q = q])
        next
          case False
          with assms \<open>fs_exists fsA ?ip\<close> Inr should
          have "attempt fsA (fs_remove fsA ?ip False) = (r, fsB)"
            by (simp add: ejectClaudeMd_def Let_def)
          then show ?thesis
            using assms(2) by (cases rule: attempt_cases) (auto dest: remove_plain_lookup[where q = q])
        qed
      qed
    qed
  qed
qed

lemma ejectClean_children:
  assumes e: "ejectClean options fsB = (r, fsC)"
      and inv: "map_of fsB (agentsPathOf (eject_projectRoot options)) = Some Dir \<or>
         (\<forall>c. c \<noteq> [] \<and> butlast c = agentsPathOf (eject_projectRoot options)
               \<longrightarrow> map_of fsB c = None)"
      and q: "q \<noteq> []" "butlast q = agentsPathOf (eject_projectRoot options)"
  shows "map_of fsC q = map_of fsB q" and "r = Inr ()"
proof -
  let ?cd = "claudeDirOf (eject_projectRoot options)"
  let ?ap = "agentsPathOf (eject_projectRoot options)"
  have apc: "?ap \<noteq> []" "butlast ?ap = ?cd" by (simp_all add: agentsPathOf_def claudeDirOf_def butlast_append)
  have rr: "fs_remove fsB ?cd True = Inr (filter (\<lambda>(q, n). \<not> prefix ?cd q) fsB)"
    by (simp add: fs_remove_def)
  show "r = Inr ()" using e by (auto simp: ejectClean_def Let_def rr split: if_splits sum.splits)
  show "map_of fsC q = map_of fsB q"
  proof (cases "clean options \<and> fs_readdir fsB ?cd = Inr []")
    case False
    then have "fsC = fsB" using e by (auto simp: ejectClean_def Let_def split: if_splits sum.splits)
    then show ?thesis by simp
  next
    case True
    then have "map_of fsB ?ap = None" using readdir_empty_children[of fsB ?cd ?ap] apc by simp
    with inv q have n: "map_of fsB q = None" by auto
    from True e have "fsC = filter (\<lambda>(q, n). \<not> prefix ?cd q) fsB"
      by (simp add: ejectClean_def Let_def rr)
    then show ?thesis using n by (simp add: map_of_remove_rec)
  qed
qed

lemma document_not_in_agents:
  "instructionsPathOf root \<noteq> agentsPathOf root"
  "q \<noteq> [] \<Longrightarrow> butlast q = agentsPathOf root \<Longrightarrow> q \<noteq> instructionsPathOf root"
proof -
  show "instructionsPathOf root \<noteq> agentsPathOf root"
    by (simp add: instructionsPathOf_def agentsPathOf_def)
  assume q: "q \<noteq> []" "butlast q = agentsPathOf root"
  show "q \<noteq> instructionsPathOf root"
  proof
    assume "q = instructionsPathOf root"
    then have "butlast q = root" by (simp add: instructionsPathOf_def)
    with q(2) have "length root = length (agentsPathOf root)" by simp
    then show False by (simp add: agentsPathOf_def)
  qed
qed

lemma eject_body_children:
  assumes e: "eject_body options fs = (r, fs')"
      and l: "fs_readdir fs (agentsPathOf (eject_projectRoot options)) = Inr files"
  shows "\<exists>rA fsA. ejectAgents options fs = (rA, fsA) \<and>
           (\<forall>q. q \<noteq> [] \<and> butlast q = agentsPathOf (eject_projectRoot options)
                  \<longrightarrow> map_of fs' q = map_of fsA q) \<and>
           (r = Inr () \<longrightarrow> rA = Inr ())"
proof -
  let ?ap = "agentsPathOf (eject_projectRoot options)"
  obtain rA fsA where a: "ejectAgents options fs = (rA, fsA)" by (cases "ejectAgents options fs") auto
  note inv = ejectAgents_frame(2)[OF a l]
  show ?thesis
  proof (cases rA)
    case (Inl ea)
    with e a have "fs' = fsA" "r = Inl ea" by (simp_all add: eject_body_def andThen_def)
    then show ?thesis using a by simp
  next
    case (Inr ua)
    obtain rB fsB where b: "ejectClaudeMd options fsA = (rB, fsB)"
      by (cases "ejectClaudeMd options fsA") auto
    have ab: "\<And>q. q \<noteq> instructionsPathOf (eject_projectRoot options) \<Longrightarrow> map_of fsB q = map_of fsA q"
      using ejectClaudeMd_frame[OF b] by blast
    have apd: "map_of fsB ?ap = map_of fsA ?ap"
      using ab[of ?ap] document_not_in_agents(1)[of "eject_projectRoot options"] by simp
    have chd: "\<And>c. c \<noteq> [] \<and> butlast c = ?ap \<Longrightarrow> map_of fsB c = map_of fsA c"
      using ab document_not_in_agents(2) by blast
    have invB: "map_of fsB ?ap = Some Dir \<or> (\<forall>c. c \<noteq> [] \<and> butlast c = ?ap \<longrightarrow> map_of fsB c = None)"
      using inv apd chd by auto
    show ?thesis
    proof (cases rB)
      case (Inl eb)
      with e a b Inr have "fs' = fsB" by (simp add: eject_body_def andThen_def)
      then have "\<And>q. q \<noteq> [] \<Longrightarrow> butlast q = ?ap \<Longrightarrow> map_of fs' q = map_of fsA q"
        using ab document_not_in_agents(2) by blast
      then show ?thesis using a Inr by simp
    next
      case (Inr ub)
      with e a b \<open>rA = Inr ua\<close> have c: "ejectClean options fsB = (r, fs')"
        by (simp add: eject_body_def andThen_def)
      have "\<And>q. q \<noteq> [] \<Longrightarrow> butlast q = ?ap \<Longrightarrow> map_of fs' q = map_of fsA q"
        using ejectClean_children(1)[OF c invB] ab document_not_in_agents(2) by metis
      then show ?thesis using a \<open>rA = Inr ua\<close> by simp
    qed
  qed
qed

lemma eject_from_body:
  assumes "eject options fs = (r, fs')"
  obtains r0 where "eject_body options fs = (r0, fs')" "r = Inr () \<longrightarrow> r0 = Inr ()"
proof -
  obtain r0 fs0 where b: "eject_body options fs = (r0, fs0)" by (cases "eject_body options fs") auto
  with assms have "fs0 = fs'" "r = Inr () \<longrightarrow> r0 = Inr ()"
    by (auto simp: eject_def split: sum.splits error.splits)
  with b that show ?thesis by blast
qed

lemma ownedBy_cong:
  "fi_name f = fi_name g \<Longrightarrow> fi_path f = fi_path g \<Longrightarrow> ownedBy options fs f = ownedBy options fs g"
  by (cases "givenId options") (simp_all add: ownedBy_def markerOf_def btwMarked_def skipped_def)

lemma md_not_backup: "\<not> suffix ''.md'' (x @ ''.btw-backup'')"
proof
  assume "suffix ''.md'' (x @ ''.btw-backup'')"
  then obtain y where "x @ ''.btw-backup'' = y @ ''.md''" by (auto simp: suffix_def)
  then have "last (x @ ''.btw-backup'') = last (y @ ''.md'')" by simp
  then show False by simp
qed

lemma eject_frame:
  assumes e: "eject options fs = (r, fs')"
      and l: "fs_readdir fs (agentsPathOf (eject_projectRoot options)) = Inr files"
  shows "q \<noteq> [] \<Longrightarrow> butlast q = agentsPathOf (eject_projectRoot options) \<Longrightarrow>
           map_of fs' q \<noteq> map_of fs q \<Longrightarrow>
           map_of fs' q = None \<and>
           (\<exists>g \<in> set files. ownedBy options fs g \<and>
              (q = fi_path g \<or> q = btwBackupPath (fi_path g)))"
    and "f \<in> set files \<Longrightarrow> suffix ''.md'' (fi_name f) \<Longrightarrow> \<not> ownedBy options fs f \<Longrightarrow>
           map_of fs' (fi_path f) = map_of fs (fi_path f)"
    and "h \<in> set files \<Longrightarrow> ownedBy options fs h \<Longrightarrow> r = Inr () \<Longrightarrow> map_of fs' (fi_path h) = None"
proof -
  let ?ap = "agentsPathOf (eject_projectRoot options)"
  from e obtain r0 where b: "eject_body options fs = (r0, fs')" and r0: "r = Inr () \<longrightarrow> r0 = Inr ()"
    by (rule eject_from_body)
  from eject_body_children[OF b l] obtain rA fsA where a: "ejectAgents options fs = (rA, fsA)"
    and same': "\<forall>q. q \<noteq> [] \<and> butlast q = ?ap \<longrightarrow> map_of fs' q = map_of fsA q"
    and rA: "r0 = Inr () \<longrightarrow> rA = Inr ()"
    by blast
  have same: "\<And>q. q \<noteq> [] \<Longrightarrow> butlast q = ?ap \<Longrightarrow> map_of fs' q = map_of fsA q"
    using same' by blast
  have A: "\<And>q. q \<noteq> [] \<Longrightarrow> butlast q = ?ap \<Longrightarrow> map_of fs' q \<noteq> map_of fs q \<Longrightarrow>
           map_of fs' q = None \<and>
           (\<exists>g \<in> set files. ownedBy options fs g \<and>
              (q = fi_path g \<or> q = btwBackupPath (fi_path g)))"
    using ejectAgents_frame(1)[OF a l] same by metis
  show "q \<noteq> [] \<Longrightarrow> butlast q = ?ap \<Longrightarrow> map_of fs' q \<noteq> map_of fs q \<Longrightarrow>
           map_of fs' q = None \<and>
           (\<exists>g \<in> set files. ownedBy options fs g \<and>
              (q = fi_path g \<or> q = btwBackupPath (fi_path g)))"
    using A by blast
  {
    assume f: "f \<in> set files" "suffix ''.md'' (fi_name f)" "\<not> ownedBy options fs f"
    note fc = listed_child[OF l f(1)]
    show "map_of fs' (fi_path f) = map_of fs (fi_path f)"
    proof (rule ccontr)
      assume "map_of fs' (fi_path f) \<noteq> map_of fs (fi_path f)"
      from A[OF fc(1,2) this] obtain g where g: "g \<in> set files" "ownedBy options fs g"
        "fi_path f = fi_path g \<or> fi_path f = btwBackupPath (fi_path g)" by blast
      note gc = listed_child[OF l g(1)]
      from g(3) show False
      proof
        assume p: "fi_path f = fi_path g"
        then have "fi_name f = fi_name g" using fc(3) gc(3) by simp
        with p f(3) g(2) ownedBy_cong show False by blast
      next
        assume p: "fi_path f = btwBackupPath (fi_path g)"
        then have "fi_name f = last (fi_path g) @ ''.btw-backup''"
          using fc(3) gc(1) by (simp add: btwBackupPath_def)
        with f(2) md_not_backup show False by simp
      qed
    qed
  }
  {
    assume h: "h \<in> set files" "ownedBy options fs h" "r = Inr ()"
    note hc = listed_child[OF l h(1)]
    have "rA = Inr ()" using h(3) r0 rA by simp
    then have "map_of fsA (fi_path h) = None" using ejectAgents_frame(3)[OF a l _ h(1,2)] by simp
    then show "map_of fs' (fi_path h) = None" using same[OF hc(1,2)] by simp
  }
qed

section \<open>Facts about occurrences of the end sentinel\<close>



























section \<open>Facts about the document across an injection and an ejection\<close>




















section \<open>The marker region in the shared document\<close>

text \<open>
  Claim C5, as the code has it. The region is located by the first start sentinel and the
  first end sentinel of the whole document, and exists only when the second index is the
  greater: it is the specification's region (first end sentinel after the start) unless
  an end sentinel stands before the first start sentinel, and then no region is
  reported. \<open>removeBtwContent\<close> strips exactly that region and returns a document without
  one unchanged. A document with a start sentinel and no matching end sentinel (none
  after the first start sentinel, so that the specification finds no region) has no
  region, and an injection that merges, or that does not force, appends the new region
  after the trimmed content and a separator.
\<close>

theorem region_located_by_first_indices:
  "locate d = (if endBeforeStart d then None else spec_locate d) \<and>
   removeBtwContent d =
     (case locate d of
        None \<Rightarrow> d
      | Some (s, e) \<Rightarrow> trim (take s d @ drop (e + length BTW_END_MARKER) d)) \<and>
   (fs_readFile fs p = Inr d \<and> includes_str d BTW_START_MARKER \<and>
    spec_locate d = None \<and> (merge options \<or> \<not> force options) \<longrightarrow>
      locate d = None \<and>
      updateClaudeMd now p m options fs =
        (Inr (), putNode p (File (trim d @ separator @ generateInstructions now m)) fs))"
  using locate_spec[of d] removeBtwContent_locate[of d] spec_locate_None[of d]
    updateClaudeMd_append[of fs p d options now m]
  by blast

theorem region_located_by_first_indices_witness:
  "fs_readFile (documentOnly (BTW_END_MARKER @ BTW_START_MARKER @ ''x''))
       (instructionsPathOf sampleRoot)
     = Inr (BTW_END_MARKER @ BTW_START_MARKER @ ''x'') \<and>
   includes_str (BTW_END_MARKER @ BTW_START_MARKER @ ''x'') BTW_START_MARKER \<and>
   includes_str (BTW_END_MARKER @ BTW_START_MARKER @ ''x'') BTW_END_MARKER \<and>
   spec_locate (BTW_END_MARKER @ BTW_START_MARKER @ ''x'') = None \<and>
   merge mergeOptions \<and>
   locate (BTW_END_MARKER @ BTW_START_MARKER @ ''x'') = None \<and>
   updateClaudeMd ''t'' (instructionsPathOf sampleRoot) demoManifest mergeOptions
       (documentOnly (BTW_END_MARKER @ BTW_START_MARKER @ ''x''))
     = (Inr (),
        putNode (instructionsPathOf sampleRoot)
          (File (trim (BTW_END_MARKER @ BTW_START_MARKER @ ''x'') @ separator @
                 generateInstructions ''t'' demoManifest))
          (documentOnly (BTW_END_MARKER @ BTW_START_MARKER @ ''x'')))"
proof -
  let ?d = "BTW_END_MARKER @ BTW_START_MARKER @ ''x''"
  have r: "fs_readFile (documentOnly ?d) (instructionsPathOf sampleRoot) = Inr ?d"
    by (simp add: fs_readFile_def documentOnly_def instructionsPathOf_def sampleRoot_def)
  have i: "includes_str ?d BTW_START_MARKER" by code_simp
  have e: "includes_str ?d BTW_END_MARKER" by code_simp
  have n: "spec_locate ?d = None" by code_simp
  have g: "merge mergeOptions" by (simp add: mergeOptions_def)
  show ?thesis
    using r i e n g
      region_located_by_first_indices[of ?d "documentOnly ?d" "instructionsPathOf sampleRoot"
        mergeOptions "''t''" demoManifest]
    by blast
qed

text \<open>
  Claim C5 as stated fails where an end sentinel stands before the start sentinel: the
  first end sentinel after the start gives the specification a region, and the code
  reports none and leaves the document as it is.
\<close>

theorem end_before_start_counterexample:
  "spec_locate (BTW_END_MARKER @ BTW_START_MARKER @ ''x'' @ BTW_END_MARKER) = Some (16, 35) \<and>
   locate (BTW_END_MARKER @ BTW_START_MARKER @ ''x'' @ BTW_END_MARKER) = None \<and>
   removeBtwContent (BTW_END_MARKER @ BTW_START_MARKER @ ''x'' @ BTW_END_MARKER)
     = BTW_END_MARKER @ BTW_START_MARKER @ ''x'' @ BTW_END_MARKER"
  by (simp add: spec_locate_def locate_def removeBtwContent_def indexOfFrom_def
      BTW_START_MARKER_def BTW_END_MARKER_def)

text \<open>
  Claim C3, as the code has it. When the shared document is readable and holds a region,
  an injection that merges, or that does not force, writes the document without the
  region, trimmed, then a separator and the new region (the new region alone when nothing
  else is left): the bytes around the old region are kept in order up to the white space
  trimmed at both ends, and the new region goes to the end, not into the span. An
  injection that forces without merging writes the new region alone.
\<close>

theorem inject_again_strips_then_appends:
  "fs_readFile fs p = Inr d \<and> locate d = Some (s, e) \<longrightarrow>
     updateClaudeMd now p m options fs =
       (Inr (),
        putNode p
          (File (if merge options \<or> \<not> force options
                 then (let rest = trim (take s d @ drop (e + length BTW_END_MARKER) d)
                       in if rest = [] then generateInstructions now m
                          else rest @ separator @ generateInstructions now m)
                 else generateInstructions now m)) fs)"
  using updateClaudeMd_located[of fs p d s e now m options] by blast

theorem inject_again_strips_then_appends_witness:
  "fs_readFile (documentOnly (''A'' @ BTW_START_MARKER @ ''old'' @ BTW_END_MARKER @ ''B''))
       (instructionsPathOf sampleRoot)
     = Inr (''A'' @ BTW_START_MARKER @ ''old'' @ BTW_END_MARKER @ ''B'') \<and>
   locate (''A'' @ BTW_START_MARKER @ ''old'' @ BTW_END_MARKER @ ''B'') = Some (1, 22) \<and>
   updateClaudeMd ''t'' (instructionsPathOf sampleRoot) demoManifest mergeOptions
       (documentOnly (''A'' @ BTW_START_MARKER @ ''old'' @ BTW_END_MARKER @ ''B''))
     = (Inr (),
        putNode (instructionsPathOf sampleRoot)
          (File (''AB'' @ separator @ generateInstructions ''t'' demoManifest))
          (documentOnly (''A'' @ BTW_START_MARKER @ ''old'' @ BTW_END_MARKER @ ''B'')))"
proof -
  let ?d = "''A'' @ BTW_START_MARKER @ ''old'' @ BTW_END_MARKER @ ''B''"
  have r: "fs_readFile (documentOnly ?d) (instructionsPathOf sampleRoot) = Inr ?d"
    by (simp add: fs_readFile_def documentOnly_def instructionsPathOf_def sampleRoot_def)
  have l: "locate ?d = Some (1, 22)"
    by (simp add: locate_def BTW_START_MARKER_def BTW_END_MARKER_def)
  have t: "trim (take 1 ?d @ drop (22 + length BTW_END_MARKER) ?d) = ''AB''"
    by (simp add: trim_def isWhiteSpace_def BTW_START_MARKER_def BTW_END_MARKER_def)
  have g: "merge mergeOptions" by (simp add: mergeOptions_def)
  have "updateClaudeMd ''t'' (instructionsPathOf sampleRoot) demoManifest mergeOptions
          (documentOnly ?d)
        = (Inr (),
           putNode (instructionsPathOf sampleRoot)
             (File (if merge mergeOptions \<or> \<not> force mergeOptions
                    then (let rest = trim (take 1 ?d @ drop (22 + length BTW_END_MARKER) ?d)
                          in if rest = [] then generateInstructions ''t'' demoManifest
                             else rest @ separator @ generateInstructions ''t'' demoManifest)
                    else generateInstructions ''t'' demoManifest))
             (documentOnly ?d))"
    using r l
      inject_again_strips_then_appends[of "documentOnly ?d" "instructionsPathOf sampleRoot"
        ?d 1 22 "''t''" demoManifest mergeOptions]
    by blast
  then have "updateClaudeMd ''t'' (instructionsPathOf sampleRoot) demoManifest mergeOptions
          (documentOnly ?d)
        = (Inr (),
           putNode (instructionsPathOf sampleRoot)
             (File (''AB'' @ separator @ generateInstructions ''t'' demoManifest))
             (documentOnly ?d))"
    unfolding t Let_def using g by simp
  with r l show ?thesis by blast
qed

text \<open>
  Claim C3 as stated fails: with the document \<open>A<region>B\<close>, replacing the span in place
  would give \<open>A<new region>B\<close>, and the code writes \<open>AB\<close>, a separator and the new
  region.
\<close>

theorem region_not_replaced_in_place_counterexample:
  "locate (''A'' @ BTW_START_MARKER @ ''old'' @ BTW_END_MARKER @ ''B'') = Some (1, 22) \<and>
   map_of (snd (updateClaudeMd ''t'' (instructionsPathOf sampleRoot) demoManifest mergeOptions
                  (documentOnly (''A'' @ BTW_START_MARKER @ ''old'' @ BTW_END_MARKER @ ''B''))))
       (instructionsPathOf sampleRoot)
     = Some (File (''AB'' @ separator @ generateInstructions ''t'' demoManifest)) \<and>
   ''AB'' @ separator @ generateInstructions ''t'' demoManifest
     \<noteq> spec_replace (''A'' @ BTW_START_MARKER @ ''old'' @ BTW_END_MARKER @ ''B'')
         (generateInstructions ''t'' demoManifest) 1 22"
  by code_simp

section \<open>The interactive toggle\<close>



text \<open>
  Claim C4 at a failing input. Both workflows are injected and the list shows \<open>demo\<close>
  active. Toggling \<open>demo\<close> calls \<open>eject\<close> without a workflow id, so the agent file of
  \<open>other\<close> goes too (and the emptied agents directory with it); an \<open>eject\<close> for the id
  \<open>demo\<close> would have kept it.
\<close>

theorem toggle_active_ejects_every_workflow:
  "getAllWorkflowIdsFromAgents twoWorkflows (agentsPathOf sampleRoot) = [''demo'', ''other''] \<and>
   map (\<lambda>i. (item_id i, isActive i))
     (getAllWorkflowsWithStatus [demoManifest, otherManifest] sampleRoot claude twoWorkflows)
     = [(''demo'', True), (''other'', False)] \<and>
   toggleRound (onToggle ''t'' sampleManager sampleCommand sampleRoot claude)
     (getAllWorkflowsWithStatus [demoManifest, otherManifest] sampleRoot claude twoWorkflows)
     ''demo'' twoWorkflows
     = [([], Dir), (sampleRoot, Dir), (claudeDirOf sampleRoot, Dir)] \<and>
   snd (eject \<lparr>eject_projectRoot = sampleRoot, workflowId = Some ''demo'', clean = False\<rparr>
          twoWorkflows)
     = [([], Dir), (sampleRoot, Dir), (claudeDirOf sampleRoot, Dir),
        (agentsPathOf sampleRoot, Dir),
        (agentsPathOf sampleRoot @ [''helper.md''],
         File (generateAgentFile ''t'' helperAgent ''other''))]"
  by code_simp

section \<open>Escaping the description\<close>

text \<open>
  Claim C6 at a failing input. A description with a colon is wrapped in double quotes and
  only its double quotes get a backslash; a backslash is copied as it is. For the
  description made of \<open>C\<close>, a colon and a backslash the output therefore ends in
  backslash, quote, the very pair written for a quote inside the value: the quoted value
  is not closed for a reader that takes the backslash as the escape character, and the
  output is a proper prefix of the output for the description made of \<open>C\<close>, a colon
  and a double quote.
\<close>

theorem escape_leaves_backslash:
  "escapeYamlString (''C:'' @ [CHR 0x5C]) = [CHR 0x22] @ ''C:'' @ [CHR 0x5C, CHR 0x22] \<and>
   escapeYamlString (''C:'' @ [CHR 0x22]) = [CHR 0x22] @ ''C:'' @ [CHR 0x5C, CHR 0x22, CHR 0x22] \<and>
   strict_prefix (escapeYamlString (''C:'' @ [CHR 0x5C])) (escapeYamlString (''C:'' @ [CHR 0x22]))"
  by code_simp

section \<open>The status\<close>

text \<open>
  Claim C10. When the listing of the agents directory succeeds and \<open>file\<close> is the first
  listed file with a workflow marker, \<open>w\<close>, then whatever other workflows the files
  after it name: \<open>w\<close> heads the ids of the scan and does not come again, \<open>getStatus\<close>
  reports \<open>isInjected\<close> with that single id (none when the marker is blank), and the
  interactive list shows no workflow with another id as active.
\<close>

theorem status_names_first_listed_workflow:
  "fs_readdir fs (agentsPathOf root) = Inr (pre @ file # rest) \<and>
   (\<forall>f \<in> set pre. markerOf fs f = None) \<and> markerOf fs file = Some w \<longrightarrow>
     (\<exists>ids. getAllWorkflowIdsFromAgents fs (agentsPathOf root) = w # ids \<and> w \<notin> set ids) \<and>
     isInjected (getStatus fs root) \<and>
     status_workflowId (getStatus fs root) = (if w = [] then None else Some w) \<and>
     (\<forall>manifest. manifest_id manifest \<noteq> w \<longrightarrow>
        \<not> isActive (workflowItem (getStatus fs root) manifest))"
proof (intro impI, elim conjE)
  assume l: "fs_readdir fs (agentsPathOf root) = Inr (pre @ file # rest)"
     and p: "\<forall>f \<in> set pre. markerOf fs f = None"
     and m: "markerOf fs file = Some w"
  note s = status_first_listed[OF l p m]
  have "\<forall>manifest. manifest_id manifest \<noteq> w \<longrightarrow>
        \<not> isActive (workflowItem (getStatus fs root) manifest)"
    using s(3) by (auto simp: workflowItem_def)
  with s show "(\<exists>ids. getAllWorkflowIdsFromAgents fs (agentsPathOf root) = w # ids \<and> w \<notin> set ids) \<and>
     isInjected (getStatus fs root) \<and>
     status_workflowId (getStatus fs root) = (if w = [] then None else Some w) \<and>
     (\<forall>manifest. manifest_id manifest \<noteq> w \<longrightarrow>
        \<not> isActive (workflowItem (getStatus fs root) manifest))"
    by blast
qed

theorem status_names_first_listed_workflow_witness:
  "fs_readdir twoWorkflows (agentsPathOf sampleRoot) = Inr ([] @ writerInfo # [helperInfo]) \<and>
   markerOf twoWorkflows writerInfo = Some ''demo'' \<and>
   markerOf twoWorkflows helperInfo = Some ''other'' \<and>
   (\<exists>ids. getAllWorkflowIdsFromAgents twoWorkflows (agentsPathOf sampleRoot) = ''demo'' # ids \<and>
          ''demo'' \<notin> set ids) \<and>
   isInjected (getStatus twoWorkflows sampleRoot) \<and>
   status_workflowId (getStatus twoWorkflows sampleRoot) = Some ''demo'' \<and>
   \<not> isActive (workflowItem (getStatus twoWorkflows sampleRoot) otherManifest)"
proof -
  have l: "fs_readdir twoWorkflows (agentsPathOf sampleRoot) = Inr ([] @ writerInfo # [helperInfo])"
    by code_simp
  have m: "markerOf twoWorkflows writerInfo = Some ''demo''" by code_simp
  have m2: "markerOf twoWorkflows helperInfo = Some ''other''" by code_simp
  have p: "\<forall>f \<in> set []. markerOf twoWorkflows f = None" by simp
  have o: "manifest_id otherManifest \<noteq> ''demo''" by (simp add: otherManifest_def)
  show ?thesis
    using l m m2 p o
      status_names_first_listed_workflow[of twoWorkflows sampleRoot "[]" writerInfo
        "[helperInfo]" "''demo''"]
    by (simp del: append_Nil)
qed

text \<open>
  Claim C9, as the code has it. \<open>getStatus\<close> is total: it returns a status for every state.
  When the listing of the agents directory fails the status is
  \<open>{isInjected: false, hasBackup: false}\<close>. When the listing succeeds, a file whose read
  fails is skipped as a file without a mark, and \<open>isInjected\<close> holds exactly when some
  listed file is readable and marked; with no such file the status is the negative one.
  Two states with the same listing, the same answers to the reads of the listed files and
  the same backup siblings have the same status.
\<close>

theorem status_skips_unreadable_files:
  "(fs_readdir fs0 (agentsPathOf root) = Inl e \<longrightarrow> getStatus fs0 root = notInjected) \<and>
   (fs_readdir fs (agentsPathOf root) = Inr files \<longrightarrow>
      (isInjected (getStatus fs root) \<longleftrightarrow> (\<exists>f \<in> set files. btwMarked fs f)) \<and>
      ((\<forall>f \<in> set files. \<not> btwMarked fs f) \<longrightarrow> getStatus fs root = notInjected)) \<and>
   (fs_readFile fs (fi_path f) = Inl e' \<longrightarrow> \<not> btwMarked fs f \<and> markerOf fs f = None) \<and>
   (fs_readdir fs1 (agentsPathOf root) = Inr files' \<and>
    fs_readdir fs2 (agentsPathOf root) = Inr files' \<and>
    (\<forall>f \<in> set files'. fs_readFile fs1 (fi_path f) = fs_readFile fs2 (fi_path f)) \<and>
    (\<forall>f \<in> set files'. fs_exists fs1 (btwBackupPath (fi_path f))
                        = fs_exists fs2 (btwBackupPath (fi_path f))) \<longrightarrow>
      getStatus fs1 root = getStatus fs2 root)"
proof (intro conjI impI)
  assume "fs_readdir fs0 (agentsPathOf root) = Inl e"
  then show "getStatus fs0 root = notInjected" by (rule getStatus_listing_fails)
next
  assume l: "fs_readdir fs (agentsPathOf root) = Inr files"
  show "isInjected (getStatus fs root) \<longleftrightarrow> (\<exists>f \<in> set files. btwMarked fs f)"
    by (simp add: getStatus_isInjected findBtwAgents_nonempty_iff[OF l])
next
  assume l: "fs_readdir fs (agentsPathOf root) = Inr files"
     and n: "\<forall>f \<in> set files. \<not> btwMarked fs f"
  then have "\<not> isInjected (getStatus fs root)"
    by (simp add: getStatus_isInjected findBtwAgents_nonempty_iff[OF l])
  then show "getStatus fs root = notInjected" by (rule getStatus_not_injected)
next
  assume "fs_readFile fs (fi_path f) = Inl e'"
  then show "\<not> btwMarked fs f" by (simp add: unreadable_unmarked)
next
  assume "fs_readFile fs (fi_path f) = Inl e'"
  then show "markerOf fs f = None" by (simp add: unreadable_unmarked)
next
  assume "fs_readdir fs1 (agentsPathOf root) = Inr files' \<and>
    fs_readdir fs2 (agentsPathOf root) = Inr files' \<and>
    (\<forall>f \<in> set files'. fs_readFile fs1 (fi_path f) = fs_readFile fs2 (fi_path f)) \<and>
    (\<forall>f \<in> set files'. fs_exists fs1 (btwBackupPath (fi_path f))
                        = fs_exists fs2 (btwBackupPath (fi_path f)))"
  then show "getStatus fs1 root = getStatus fs2 root"
    using getStatus_same_reads by blast
qed

theorem status_skips_unreadable_files_witness:
  "fs_readdir (documentOnly []) (agentsPathOf sampleRoot) = Inl (IOError ''ENOENT'') \<and>
   getStatus (documentOnly []) sampleRoot = notInjected \<and>
   fs_readdir oneUnreadable (agentsPathOf sampleRoot) = Inr [brokenInfo, writerInfo] \<and>
   fs_readFile oneUnreadable (fi_path brokenInfo) = Inl (IOError ''EACCES'') \<and>
   \<not> btwMarked oneUnreadable brokenInfo \<and> markerOf oneUnreadable brokenInfo = None \<and>
   btwMarked oneUnreadable writerInfo \<and>
   isInjected (getStatus oneUnreadable sampleRoot) \<and>
   fs_readdir (oneUnreadable @ documentOnly ''x'') (agentsPathOf sampleRoot)
     = Inr [brokenInfo, writerInfo] \<and>
   getStatus oneUnreadable sampleRoot = getStatus (oneUnreadable @ documentOnly ''x'') sampleRoot"
proof -
  let ?fs2 = "oneUnreadable @ documentOnly ''x''"
  have a: "fs_readdir (documentOnly []) (agentsPathOf sampleRoot) = Inl (IOError ''ENOENT'')"
    by code_simp
  have l: "fs_readdir oneUnreadable (agentsPathOf sampleRoot) = Inr [brokenInfo, writerInfo]"
    by code_simp
  have l2: "fs_readdir ?fs2 (agentsPathOf sampleRoot) = Inr [brokenInfo, writerInfo]"
    by code_simp
  have u: "fs_readFile oneUnreadable (fi_path brokenInfo) = Inl (IOError ''EACCES'')"
    by code_simp
  have w: "btwMarked oneUnreadable writerInfo" by code_simp
  have r: "\<forall>f \<in> set [brokenInfo, writerInfo].
             fs_readFile oneUnreadable (fi_path f) = fs_readFile ?fs2 (fi_path f)"
    by code_simp
  have b: "\<forall>f \<in> set [brokenInfo, writerInfo].
             fs_exists oneUnreadable (btwBackupPath (fi_path f))
               = fs_exists ?fs2 (btwBackupPath (fi_path f))"
    by code_simp
  have m: "\<exists>f \<in> set [brokenInfo, writerInfo]. btwMarked oneUnreadable f" using w by simp
  show ?thesis
    using a l l2 u w r b m
      status_skips_unreadable_files[where ?fs0.0 = "documentOnly []" and root = sampleRoot
        and e = "IOError ''ENOENT''" and fs = oneUnreadable and files = "[brokenInfo, writerInfo]"
        and f = brokenInfo and e' = "IOError ''EACCES''" and ?fs1.0 = oneUnreadable
        and ?fs2.0 = ?fs2 and files' = "[brokenInfo, writerInfo]"]
    by blast
qed

text \<open>
  Claim C9 as stated fails: a file read fails and the status is not the negative one,
  because the scan skips the file and finds the marker of the next.
\<close>

theorem unreadable_file_counterexample:
  "fs_readFile oneUnreadable (agentsPathOf sampleRoot @ [''broken.md'']) = Inl (IOError ''EACCES'') \<and>
   getStatus oneUnreadable sampleRoot
     = \<lparr>isInjected = True, status_workflowId = Some ''demo'', hasBackup = False\<rparr> \<and>
   getStatus oneUnreadable sampleRoot \<noteq> notInjected"
  by code_simp

section \<open>Injection\<close>

text \<open>
  Claim C2. When \<open>inject\<close> is called without \<open>force\<close> and the scan of the agents
  directory already reports the manifest's id, the call throws the \<open>INJECTION_FAILED\<close>
  error of the precondition and the state after it is the state before it: the two
  directories it first ensures are already there.
\<close>

theorem repeated_inject_without_force_fails_unchanged:
  "\<not> force options \<and>
   isWorkflowInjected fs (inject_projectRoot options) (manifest_id manifest) \<and>
   parentsExist fs \<longrightarrow>
     inject now manifest options fs = (Inl (alreadyInjected (manifest_id manifest)), fs)"
  using inject_body_already[of options fs manifest now]
  by (auto simp: inject_def alreadyInjected_def)

theorem repeated_inject_without_force_fails_unchanged_witness:
  "\<not> force plainOptions \<and>
   isWorkflowInjected twoWorkflows (inject_projectRoot plainOptions) (manifest_id demoManifest) \<and>
   parentsExist twoWorkflows \<and>
   inject ''t'' demoManifest plainOptions twoWorkflows
     = (Inl (BTWError INJECTION_FAILED
               (''Workflow '' @ [CHR 0x27] @ ''demo'' @ [CHR 0x27] @
                '' is already injected. Use --force to re-inject.'')), twoWorkflows)"
proof -
  have f: "\<not> force plainOptions" by (simp add: plainOptions_def)
  have i: "isWorkflowInjected twoWorkflows (inject_projectRoot plainOptions)
             (manifest_id demoManifest)"
    by code_simp
  have w: "parentsExist twoWorkflows" by code_simp
  have d: "manifest_id demoManifest = ''demo''" by (simp add: demoManifest_def)
  show ?thesis
    using f i w
      repeated_inject_without_force_fails_unchanged[of plainOptions twoWorkflows demoManifest
        "''t''"]
    by (simp add: alreadyInjected_def d)
qed

section \<open>Ejection\<close>

text \<open>
  Claim C1. Let the listing of the agents directory succeed before an \<open>eject\<close>, whatever
  the call returns. A node of that directory that differs afterwards is gone, and it is
  a listed file the call owns, or the \<open>.btw-backup\<close> sibling of one: with a workflow id
  the owned files are those whose \<open># workflow:\<close> marker is that id, without one (or with
  an empty one) they are the BTW-marked files. A listed \<open>.md\<close> file that is not owned (its
  marker names another id, or it has no mark, or it cannot be read) is the same node with
  the same content afterwards. When the call returns normally every owned file is gone.
\<close>

theorem eject_removes_only_owned_artifacts:
  "eject options fs = (r, fs') \<and>
   fs_readdir fs (agentsPathOf (eject_projectRoot options)) = Inr files \<longrightarrow>
     (q \<noteq> [] \<and> butlast q = agentsPathOf (eject_projectRoot options) \<and>
      map_of fs' q \<noteq> map_of fs q \<longrightarrow>
        map_of fs' q = None \<and>
        (\<exists>g \<in> set files. ownedBy options fs g \<and>
           (q = fi_path g \<or> q = btwBackupPath (fi_path g)))) \<and>
     (f \<in> set files \<and> suffix ''.md'' (fi_name f) \<and> \<not> ownedBy options fs f \<longrightarrow>
        map_of fs' (fi_path f) = map_of fs (fi_path f)) \<and>
     (h \<in> set files \<and> ownedBy options fs h \<and> r = Inr () \<longrightarrow>
        map_of fs' (fi_path h) = None)"
proof (intro impI, elim conjE)
  assume e: "eject options fs = (r, fs')"
     and l: "fs_readdir fs (agentsPathOf (eject_projectRoot options)) = Inr files"
  note fr = eject_frame[OF e l]
  show "(q \<noteq> [] \<and> butlast q = agentsPathOf (eject_projectRoot options) \<and>
      map_of fs' q \<noteq> map_of fs q \<longrightarrow>
        map_of fs' q = None \<and>
        (\<exists>g \<in> set files. ownedBy options fs g \<and>
           (q = fi_path g \<or> q = btwBackupPath (fi_path g)))) \<and>
     (f \<in> set files \<and> suffix ''.md'' (fi_name f) \<and> \<not> ownedBy options fs f \<longrightarrow>
        map_of fs' (fi_path f) = map_of fs (fi_path f)) \<and>
     (h \<in> set files \<and> ownedBy options fs h \<and> r = Inr () \<longrightarrow>
        map_of fs' (fi_path h) = None)"
    using fr(1)[of q] fr(2)[of f] fr(3)[of h] by blast
qed

theorem eject_removes_only_owned_artifacts_witness:
  "eject demoEject twoWorkflows = (Inr (), snd (eject demoEject twoWorkflows)) \<and>
   fs_readdir twoWorkflows (agentsPathOf (eject_projectRoot demoEject))
     = Inr [writerInfo, helperInfo] \<and>
   ownedBy demoEject twoWorkflows writerInfo \<and>
   \<not> ownedBy demoEject twoWorkflows helperInfo \<and>
   suffix ''.md'' (fi_name helperInfo) \<and>
   map_of twoWorkflows (fi_path writerInfo) \<noteq> None \<and>
   map_of (snd (eject demoEject twoWorkflows)) (fi_path writerInfo) = None \<and>
   (\<exists>g \<in> set [writerInfo, helperInfo]. ownedBy demoEject twoWorkflows g \<and>
      (fi_path writerInfo = fi_path g \<or> fi_path writerInfo = btwBackupPath (fi_path g))) \<and>
   map_of (snd (eject demoEject twoWorkflows)) (fi_path helperInfo)
     = map_of twoWorkflows (fi_path helperInfo)"
proof -
  have r: "fst (eject demoEject twoWorkflows) = Inr ()" by code_simp
  then have e: "eject demoEject twoWorkflows = (Inr (), snd (eject demoEject twoWorkflows))"
    by (metis prod.collapse)
  have l: "fs_readdir twoWorkflows (agentsPathOf (eject_projectRoot demoEject))
     = Inr [writerInfo, helperInfo]" by code_simp
  have o1: "ownedBy demoEject twoWorkflows writerInfo" by code_simp
  have o2: "\<not> ownedBy demoEject twoWorkflows helperInfo" by code_simp
  have s: "suffix ''.md'' (fi_name helperInfo)" by code_simp
  have b: "map_of twoWorkflows (fi_path writerInfo) \<noteq> None" by code_simp
  have q: "fi_path writerInfo \<noteq> [] \<and>
           butlast (fi_path writerInfo) = agentsPathOf (eject_projectRoot demoEject)" by code_simp
  have m: "writerInfo \<in> set [writerInfo, helperInfo]" "helperInfo \<in> set [writerInfo, helperInfo]"
    by simp_all
  note t = eject_removes_only_owned_artifacts[where options = demoEject and fs = twoWorkflows
      and r = "Inr ()" and fs' = "snd (eject demoEject twoWorkflows)"
      and files = "[writerInfo, helperInfo]" and q = "fi_path writerInfo" and f = helperInfo
      and h = writerInfo]
  have gone: "map_of (snd (eject demoEject twoWorkflows)) (fi_path writerInfo) = None"
    using t e l o1 m by blast
  show ?thesis
    using t e l o1 o2 s b q m gone by (intro conjI) (blast | metis)+
qed




end
